theory Spec2Isabelle
  imports Main "HOL-Library.AList" "HOL-Library.Char_ord" "HOL-Library.List_Lexorder"
begin

section \<open>Values and documents\<close>

text \<open>
  The model engine of \<^verbatim>\<open>dadi/lib/model/index.js\<close> works on JavaScript objects that
  are read from and written to JSON.  A value is a JSON value; a document (and a query, and
  an update payload) is an object, kept as an association list in insertion order, as
  \<^verbatim>\<open>Object.keys\<close> enumerates it.
\<close>

datatype json =
    JNull
  | JBool bool
  | JNum int
  | JStr string
  | JArr "json list"
  | JObj "(string \<times> json) list"

type_synonym document = "(string \<times> json) list"

text \<open>\<^verbatim>\<open>obj[key]\<close>: the value stored under a key, \<open>None\<close> for \<^verbatim>\<open>undefined\<close>.\<close>

definition getField :: "document \<Rightarrow> string \<Rightarrow> json option" where
  "getField doc key = map_of doc key"

text \<open>\<^verbatim>\<open>obj[key] = value\<close>: an existing key keeps its place, a new key goes last.\<close>

definition setField :: "string \<Rightarrow> json \<Rightarrow> document \<Rightarrow> document" where
  "setField key v doc = AList.update key v doc"

text \<open>\<^verbatim>\<open>Object.assign(target, source)\<close>.\<close>

definition assign :: "document \<Rightarrow> document \<Rightarrow> document" where
  "assign target source = fold (\<lambda>(k, v) acc. setField k v acc) source target"

text \<open>JavaScript truthiness of a value that may be \<^verbatim>\<open>undefined\<close>.\<close>

fun truthy :: "json option \<Rightarrow> bool" where
  "truthy None = False"
| "truthy (Some JNull) = False"
| "truthy (Some (JBool b)) = b"
| "truthy (Some (JNum n)) = (n \<noteq> 0)"
| "truthy (Some (JStr s)) = (s \<noteq> [])"
| "truthy (Some (JArr xs)) = True"
| "truthy (Some (JObj kvs)) = True"

section \<open>Result-set formatting (index.js, formatResultSet)\<close>

text \<open>
  \<^verbatim>\<open>field.indexOf(prefix) === 0\<close> is the prefix test; \<^verbatim>\<open>field.slice(1)\<close> drops one
  character, whatever the length of the prefix.
\<close>

definition startsWith :: "string \<Rightarrow> string \<Rightarrow> bool" where
  "startsWith field pfx = (take (length pfx) field = pfx)"

definition renameField :: "string \<Rightarrow> string \<Rightarrow> string \<Rightarrow> string" where
  "renameField from to field = (if startsWith field from then to @ drop 1 field else field)"

text \<open>
  \<^verbatim>\<open>newDocument[property] = value\<close> on the object literal \<^verbatim>\<open>{}\<close>.  The key
  \<^verbatim>\<open>__proto__\<close> is the accessor that the object inherits from \<^verbatim>\<open>Object.prototype\<close>: the
  assignment adds no field of that name (it replaces the prototype when the value is an
  object, and does nothing for any other value).  Every other key is an ordinary field.
\<close>

definition setProperty :: "string \<Rightarrow> json \<Rightarrow> document \<Rightarrow> document" where
  "setProperty key v obj = (if key = ''__proto__'' then obj else setField key v obj)"

text \<open>
  The body of \<^verbatim>\<open>documents.forEach\<close>: the keys are visited in sorted order, a field is
  renamed when it starts with \<open>from\<close>, and a field whose value is \<^verbatim>\<open>null\<close> is left out.
\<close>

definition formatDocument :: "string \<Rightarrow> string \<Rightarrow> document \<Rightarrow> document" where
  "formatDocument from to doc =
     fold (\<lambda>field newDocument.
             (case getField doc field of
                Some v \<Rightarrow> if v \<noteq> JNull
                          then setProperty (renameField from to field) v newDocument
                          else newDocument
              | None \<Rightarrow> newDocument))
          (sort (map fst doc)) []"

text \<open>
  The argument of \<^verbatim>\<open>formatResultSet\<close> is one document or an array of documents
  (\<^verbatim>\<open>Array.isArray(results)\<close>), and the result has the same shape.
\<close>

datatype resultset = Single document | Multiple "document list"

text \<open>
  \<open>internalFieldsPrefix\<close> is \<^verbatim>\<open>config.get('internalFieldsPrefix')\<close>; the configuration
  file is not part of the sources, so the prefix is a parameter.
\<close>

definition formatResultSet :: "string \<Rightarrow> resultset \<Rightarrow> bool \<Rightarrow> resultset" where
  "formatResultSet internalFieldsPrefix results formatForInput =
     (let from = (if formatForInput then internalFieldsPrefix else ''_'');
          to = (if formatForInput then ''_'' else internalFieldsPrefix)
      in case results of
           Multiple documents \<Rightarrow> Multiple (map (formatDocument from to) documents)
         | Single document \<Rightarrow> Single (formatDocument from to document))"

definition formatResultSetForInput :: "string \<Rightarrow> resultset \<Rightarrow> resultset" where
  "formatResultSetForInput internalFieldsPrefix results =
     formatResultSet internalFieldsPrefix results True"

definition formatResultSetForOutput :: "string \<Rightarrow> resultset \<Rightarrow> resultset" where
  "formatResultSetForOutput internalFieldsPrefix results =
     formatResultSet internalFieldsPrefix results False"

text \<open>
  Two objects are equal when they hold the same value under every key; \<open>stripNulls\<close> is
  the removal of the null-valued fields.
\<close>

definition sameObject :: "document \<Rightarrow> document \<Rightarrow> bool" where
  "sameObject a b = (map_of a = map_of b)"

definition stripNulls :: "document \<Rightarrow> document" where
  "stripNulls doc = filter (\<lambda>(k, v). v \<noteq> JNull) doc"

fun sameResultSet :: "resultset \<Rightarrow> resultset \<Rightarrow> bool" where
  "sameResultSet (Single a) (Single b) = sameObject a b"
| "sameResultSet (Multiple as) (Multiple bs) = list_all2 sameObject as bs"
| "sameResultSet _ _ = False"

fun mapResultSet :: "(document \<Rightarrow> document) \<Rightarrow> resultset \<Rightarrow> resultset" where
  "mapResultSet f (Single d) = Single (f d)"
| "mapResultSet f (Multiple ds) = Multiple (map f ds)"

fun documentsOf :: "resultset \<Rightarrow> document list" where
  "documentsOf (Single d) = [d]"
| "documentsOf (Multiple ds) = ds"

text \<open>A well-formed object has one entry for each key.\<close>

definition wellFormed :: "document \<Rightarrow> bool" where
  "wellFormed doc = distinct (map fst doc)"

text \<open>The loop body of \<open>formatDocument\<close>, named for the proofs.\<close>

definition formatStep :: "string \<Rightarrow> string \<Rightarrow> document \<Rightarrow> string \<Rightarrow> document \<Rightarrow> document" where
  "formatStep from to doc =
     (\<lambda>field newDocument.
        (case getField doc field of
           Some v \<Rightarrow> if v \<noteq> JNull
                     then setProperty (renameField from to field) v newDocument
                     else newDocument
         | None \<Rightarrow> newDocument))"

section \<open>Errors, events and the state of an operation\<close>

text \<open>
  \<^verbatim>\<open>createValidationError\<close> sets status 400, \<^verbatim>\<open>createConnectionError\<close> 503, the
  not-found errors of \<^verbatim>\<open>update\<close> and \<^verbatim>\<open>delete\<close> 404.  A hook pipeline hands its caller
  a JSON value as error (the formatted error, or \<^verbatim>\<open>{}\<close>); \<^verbatim>\<open>create\<close> wraps it in
  \<^verbatim>\<open>{success: false, errors: err}\<close>.  A rejection by the datastore carries its message, an
  error of \<^verbatim>\<open>createFromComposed\<close> its \<^verbatim>\<open>json\<close> member.
\<close>

datatype error =
    ValidationError string
  | ConnectionError
  | NotFoundError string
  | HookError json
  | CreateHookError json
  | StorageError string
  | ComposedError json
  | TypeError string

fun statusCode :: "error \<Rightarrow> nat option" where
  "statusCode (ValidationError m) = Some 400"
| "statusCode ConnectionError = Some 503"
| "statusCode (NotFoundError m) = Some 404"
| "statusCode _ = None"

definition createConnectionError :: error where
  "createConnectionError = ConnectionError"

text \<open>\<^verbatim>\<open>new Error(message || 'Model Validation Failed')\<close>.\<close>

definition createValidationError :: "string option \<Rightarrow> error" where
  "createValidationError message =
     ValidationError (case message of Some m \<Rightarrow> if m = [] then ''Model Validation Failed'' else m
                                    | None \<Rightarrow> ''Model Validation Failed'')"

text \<open>
  What a callback \<^verbatim>\<open>done(err, data)\<close> receives on success: the results of
  \<^verbatim>\<open>create\<close>; the results and the \<^verbatim>\<open>totalCount\<close> of the metadata of a find or an update;
  the \<^verbatim>\<open>deletedCount\<close> and \<^verbatim>\<open>totalCount\<close> of \<^verbatim>\<open>delete\<close>.
\<close>

datatype payload =
    Created "document list"
  | Results "document list" nat
  | Deleted nat int

text \<open>
  The calls an operation makes to its collaborators and to its caller, in the order they
  are made: the datastore (\<^verbatim>\<open>database.find/insert/update/delete\<close>), a find on the model
  of a referenced collection, the history (\<^verbatim>\<open>history.createEach\<close>), a hook
  (\<^verbatim>\<open>hook.apply\<close>, with the hook type, its index and the value handed in), the search
  handler, the logger, the callback \<^verbatim>\<open>done\<close>, and an exception that leaves the operation.
\<close>

datatype event =
    DbFind string document
  | DbInsert string "document list"
  | DbUpdate string document document
  | DbDelete string document
  | ReferenceFind string document
  | HistoryCreateEach "document list" string
  | HookApply string nat json
  | SearchIndex "document list"
  | SearchDelete "document list"
  | LogError error
  | Done "error + payload"
  | Throw error

text \<open>
  The state an operation runs in: the contents of the datastore (collection by collection),
  the counter the datastore draws fresh identifiers from, whether the connection has a
  database (\<^verbatim>\<open>this.connection.db\<close>), the collections on which the datastore rejects every
  call (with the message of the rejection), the \<^verbatim>\<open>compose\<close> property of the model
  instance, and the calls made so far.
\<close>

record state =
  colls :: "string \<Rightarrow> document list"
  nextId :: nat
  db :: bool
  failing :: "(string \<times> string) list"
  compose :: "json option"
  trace :: "event list"

definition emit :: "event \<Rightarrow> state \<Rightarrow> state" where
  "emit e s = s\<lparr>trace := trace s @ [e]\<rparr>"

definition done_cb :: "error + payload \<Rightarrow> state \<Rightarrow> state" where
  "done_cb r s = emit (Done r) s"

section \<open>The datastore\<close>

text \<open>
  Modelled from the spec: the Datastore collaborator (section 6: find, insert, update and
  delete over a named collection, each of which may fail), which is outside the sources.
  A collection is the list of its documents.  A query is a conjunction of conditions on
  fields: equality, or membership of the value (or of one element of an array value) in
  the list of a \<^verbatim>\<open>$containsAny\<close> or \<^verbatim>\<open>$in\<close> condition.  An update applies \<^verbatim>\<open>$set\<close>
  (assignment of fields), \<^verbatim>\<open>$inc\<close> (addition to a numeric field, an absent field counting
  as 0) and \<^verbatim>\<open>$push\<close> (appending to an array field, an absent field counting as empty) to
  every matching document.  An insert gives a document without \<^verbatim>\<open>_id\<close> a fresh one.
  Paging and field projection are not modelled.
\<close>

fun digitChar :: "nat \<Rightarrow> char" where
  "digitChar n = char_of (48 + n)"

fun showNat :: "nat \<Rightarrow> string" where
  "showNat n = (if n < 10 then [digitChar n] else showNat (n div 10) @ [digitChar (n mod 10)])"

declare showNat.simps [simp del]

definition objectId :: "nat \<Rightarrow> string" where
  "objectId n = ''id'' @ showNat n"

fun matchCondition :: "json option \<Rightarrow> json \<Rightarrow> bool" where
  "matchCondition v (JObj [(operator, JArr ids)]) =
     (if operator = ''$containsAny'' \<or> operator = ''$in''
      then (case v of
              Some (JArr vs) \<Rightarrow> list_ex (\<lambda>x. x \<in> set ids) vs
            | Some x \<Rightarrow> x \<in> set ids
            | None \<Rightarrow> False)
      else v = Some (JObj [(operator, JArr ids)]))"
| "matchCondition v cond = (v = Some cond)"

definition matches :: "document \<Rightarrow> document \<Rightarrow> bool" where
  "matches query doc = list_all (\<lambda>(k, cond). matchCondition (getField doc k) cond) query"

definition rejection :: "state \<Rightarrow> string \<Rightarrow> error option" where
  "rejection s collection = map_option StorageError (map_of (failing s) collection)"

definition datastore_find ::
  "string \<Rightarrow> document \<Rightarrow> state \<Rightarrow> state \<times> (error + document list \<times> nat)" where
  "datastore_find collection query s =
     (let s1 = emit (DbFind collection query) s
      in case rejection s collection of
           Some e \<Rightarrow> (s1, Inl e)
         | None \<Rightarrow>
             (let results = filter (matches query) (colls s collection)
              in (s1, Inr (results, length results))))"

fun assignIds :: "nat \<Rightarrow> document list \<Rightarrow> document list \<times> nat" where
  "assignIds n [] = ([], n)"
| "assignIds n (d # ds) =
     (case getField d ''_id'' of
        Some i \<Rightarrow> (let (r, n') = assignIds n ds in (d # r, n'))
      | None \<Rightarrow>
          (let (r, n') = assignIds (Suc n) ds
           in (setField ''_id'' (JStr (objectId n)) d # r, n')))"

definition datastore_insert ::
  "string \<Rightarrow> document list \<Rightarrow> state \<Rightarrow> state \<times> (error + document list)" where
  "datastore_insert collection data s =
     (let s1 = emit (DbInsert collection data) s
      in case rejection s collection of
           Some e \<Rightarrow> (s1, Inl e)
         | None \<Rightarrow>
             (let (results, n) = assignIds (nextId s) data
              in (s1\<lparr>colls := (colls s)(collection := colls s collection @ results),
                      nextId := n\<rparr>,
                  Inr results)))"

fun incField :: "string \<times> json \<Rightarrow> document \<Rightarrow> document" where
  "incField (k, JNum n) doc =
     (case getField doc k of
        Some (JNum old) \<Rightarrow> setField k (JNum (old + n)) doc
      | None \<Rightarrow> setField k (JNum n) doc
      | Some other \<Rightarrow> doc)"
| "incField (k, v) doc = doc"

fun pushField :: "string \<times> json \<Rightarrow> document \<Rightarrow> document" where
  "pushField (k, v) doc =
     (case getField doc k of
        Some (JArr old) \<Rightarrow> setField k (JArr (old @ [v])) doc
      | None \<Rightarrow> setField k (JArr [v]) doc
      | Some other \<Rightarrow> doc)"

fun applyOperator :: "string \<times> json \<Rightarrow> document \<Rightarrow> document" where
  "applyOperator (operator, JObj fs) doc =
     (if operator = ''$set'' then assign doc fs
      else if operator = ''$inc'' then fold incField fs doc
      else if operator = ''$push'' then fold pushField fs doc
      else doc)"
| "applyOperator (operator, v) doc = doc"

definition applyUpdate :: "document \<Rightarrow> document \<Rightarrow> document" where
  "applyUpdate update doc = fold applyOperator update doc"

definition datastore_update ::
  "string \<Rightarrow> document \<Rightarrow> document \<Rightarrow> state \<Rightarrow> state \<times> (error + nat)" where
  "datastore_update collection query update s =
     (let s1 = emit (DbUpdate collection query update) s
      in case rejection s collection of
           Some e \<Rightarrow> (s1, Inl e)
         | None \<Rightarrow>
             (s1\<lparr>colls := (colls s)(collection :=
                     map (\<lambda>d. if matches query d then applyUpdate update d else d)
                         (colls s collection))\<rparr>,
              Inr (length (filter (matches query) (colls s collection)))))"

definition datastore_delete ::
  "string \<Rightarrow> document \<Rightarrow> state \<Rightarrow> state \<times> (error + nat)" where
  "datastore_delete collection query s =
     (let s1 = emit (DbDelete collection query) s
      in case rejection s collection of
           Some e \<Rightarrow> (s1, Inl e)
         | None \<Rightarrow>
             (s1\<lparr>colls := (colls s)(collection :=
                     filter (\<lambda>d. \<not> matches query d) (colls s collection))\<rparr>,
              Inr (length (filter (matches query) (colls s collection)))))"

section \<open>The model instance\<close>

text \<open>
  A hook handler receives the current value and the documents of the operation and resolves
  to a replacement value or rejects; \<open>Rejects\<close> carries \<^verbatim>\<open>hook.formatError(err)\<close>.
  (The hook module is outside the sources; section 4.2 of the spec describes a handler so.)
\<close>

datatype hook_result = Resolves json | Rejects json

type_synonym hook = "json \<Rightarrow> document list \<Rightarrow> hook_result"

text \<open>
  The settings of a reference field that \<^verbatim>\<open>find\<close> reads from
  \<^verbatim>\<open>getSchemaOrParent(collectionKey, schema).settings\<close>.
\<close>

record referenceSettings =
  collection :: string
  multiple :: bool

text \<open>
  The model of a referenced collection, as far as the \<^verbatim>\<open>find\<close> that resolves a reference
  path reads it: its validator, the query normalisation, whether it composes its results,
  and its composer.
\<close>

record referenceModel =
  ref_makeCaseInsensitive :: "document \<Rightarrow> document"
  ref_validateQuery :: "document \<Rightarrow> bool"
  ref_compose :: bool
  ref_composer_compose :: "document list \<Rightarrow> document list"

text \<open>
  The collection settings the constructor reads (\<^verbatim>\<open>compose\<close>, \<^verbatim>\<open>storeRevisions\<close>,
  \<^verbatim>\<open>revisionCollection\<close>, \<^verbatim>\<open>hooks\<close>); an absent setting is \<open>None\<close>.
\<close>

record settings =
  settings_compose :: "json option"
  storeRevisions :: "json option"
  settings_revisionCollection :: "string option"
  beforeCreate :: "hook list option"
  afterCreate :: "hook list option"
  beforeUpdate :: "hook list option"
  afterUpdate :: "hook list option"
  beforeDelete :: "hook list option"
  afterDelete :: "hook list option"

text \<open>
  A model instance: its collection name and settings, and the collaborators that are
  outside the sources, as parameters: the validator (\<^verbatim>\<open>validate.query(q).success\<close>,
  \<^verbatim>\<open>validate.schema(doc, update).success\<close>), the composer (\<^verbatim>\<open>compose\<close>, and
  \<^verbatim>\<open>createFromComposed\<close>, which gives the \<^verbatim>\<open>json\<close> of its error if it fails), the query
  utilities, the regular-expression test of the link-key branch, the configured
  internal-field prefix, the models of the referenced collections, and whether the
  instance has a \<^verbatim>\<open>searcher\<close> property (the constructor sets \<^verbatim>\<open>searchHandler\<close>, and
  \<^verbatim>\<open>update\<close> calls \<^verbatim>\<open>this.searcher.index\<close>).
\<close>

record model =
  name :: string
  settings :: settings
  validateQuery :: "document \<Rightarrow> bool"
  validateSchema :: "document \<Rightarrow> bool \<Rightarrow> bool"
  composer_compose :: "document list \<Rightarrow> document list"
  createFromComposed :: "document \<Rightarrow> json option"
  makeCaseInsensitive :: "document \<Rightarrow> document"
  convertDateTimeForSave :: "document \<Rightarrow> document"
  containsNestedReferenceFields :: "document \<Rightarrow> bool"
  processReferenceFieldQuery :: "document \<Rightarrow> document \<times> document"
  getSchemaOrParent :: "string \<Rightarrow> referenceSettings"
  regexTest :: "json \<Rightarrow> json option \<Rightarrow> bool"
  internalFieldsPrefix :: string
  referenceModels :: "string \<Rightarrow> referenceModel"
  searcher :: bool

text \<open>
  The constructor: \<^verbatim>\<open>this.storeRevisions = (this.settings.storeRevisions !== false)\<close>;
  \<^verbatim>\<open>this.history\<close> and \<^verbatim>\<open>this.revisionCollection\<close> exist exactly in that case;
  \<^verbatim>\<open>this.compose\<close> starts as the \<^verbatim>\<open>compose\<close> setting.
\<close>

definition history :: "model \<Rightarrow> bool" where
  "history m = (storeRevisions (settings m) \<noteq> Some (JBool False))"

definition revisionCollection :: "model \<Rightarrow> string" where
  "revisionCollection m =
     (case settings_revisionCollection (settings m) of
        Some c \<Rightarrow> if c = [] then name m @ ''History'' else c
      | None \<Rightarrow> name m @ ''History'')"

definition initialState :: "model \<Rightarrow> (string \<Rightarrow> document list) \<Rightarrow> state" where
  "initialState m contents =
     \<lparr>colls = contents, nextId = 0, db = True, failing = [],
      compose = settings_compose (settings m), trace = []\<rparr>"

section \<open>The history\<close>

text \<open>
  Modelled from the spec: \<^verbatim>\<open>History.createEach\<close> (section 4.5), which is outside the
  sources.  For each document handed in, in order, it inserts one revision record into the
  revision collection and appends the identifier of the new record to the \<^verbatim>\<open>_history\<close> of
  the live document with the same \<^verbatim>\<open>_id\<close>; it fails with the first rejection of the
  datastore.  A revision record holds the kind of the mutation under \<^verbatim>\<open>_action\<close> and the
  snapshot under \<^verbatim>\<open>_document\<close> (the spec fixes no layout).
\<close>

definition revisionRecord :: "document \<Rightarrow> string \<Rightarrow> document" where
  "revisionRecord doc action = [(''_action'', JStr action), (''_document'', JObj doc)]"

fun history_createEach ::
  "model \<Rightarrow> document list \<Rightarrow> string \<Rightarrow> state \<Rightarrow> state \<times> error option" where
  "history_createEach m [] action s = (s, None)"
| "history_createEach m (doc # docs) action s =
     (case datastore_insert (revisionCollection m) [revisionRecord doc action] s of
        (s1, Inl e) \<Rightarrow> (s1, Some e)
      | (s1, Inr revs) \<Rightarrow>
          (case (getField doc ''_id'', getField (hd revs) ''_id'') of
             (Some docId, Some revId) \<Rightarrow>
               (case datastore_update (name m) [(''_id'', docId)]
                       [(''$push'', JObj [(''_history'', revId)])] s1 of
                  (s2, Inl e) \<Rightarrow> (s2, Some e)
                | (s2, Inr n) \<Rightarrow> history_createEach m docs action s2)
           | _ \<Rightarrow> history_createEach m docs action s1))"

section \<open>Hook pipelines\<close>

text \<open>
  \<^verbatim>\<open>async.reduce(hooks, initial, iteratee, callback)\<close> with the iteratee of
  \<^verbatim>\<open>create\<close>, \<^verbatim>\<open>update\<close> and \<^verbatim>\<open>delete\<close>:
  \<^verbatim>\<open>Promise.resolve(hook.apply(current, ...)).then(v => callback((v === null) ? {} : null, v))
     .catch(err => callback(hook.formatError(err)))\<close>.
  The reduction stops at the first handler whose callback gets an error and hands that
  error to the final callback; otherwise the final callback gets the last value.
\<close>

fun runHooks ::
  "string \<Rightarrow> nat \<Rightarrow> hook list \<Rightarrow> document list \<Rightarrow> json \<Rightarrow> state \<Rightarrow> state \<times> (json + json)" where
  "runHooks hookType i [] docs current s = (s, Inr current)"
| "runHooks hookType i (h # hs) docs current s =
     (let s1 = emit (HookApply hookType i current) s
      in case h current docs of
           Rejects err \<Rightarrow> (s1, Inl err)
         | Resolves v \<Rightarrow>
             if v = JNull then (s1, Inl (JObj []))
             else runHooks hookType (Suc i) hs docs v s1)"

text \<open>
  The \<^verbatim>\<open>after\<close> hooks are applied in a \<^verbatim>\<open>forEach\<close> whose results are dropped.
\<close>

fun applyEach :: "string \<Rightarrow> nat \<Rightarrow> hook list \<Rightarrow> json \<Rightarrow> state \<Rightarrow> state" where
  "applyEach hookType i [] v s = s"
| "applyEach hookType i (h # hs) v s =
     applyEach hookType (Suc i) hs v (emit (HookApply hookType i v) s)"

definition afterHooks :: "string \<Rightarrow> hook list option \<Rightarrow> json \<Rightarrow> state \<Rightarrow> state" where
  "afterHooks hookType hs v s = (case hs of None \<Rightarrow> s | Some l \<Rightarrow> applyEach hookType 0 l v s)"

section \<open>Strings of values\<close>

text \<open>
  \<^verbatim>\<open>value.toString()\<close>: \<open>None\<close> where JavaScript throws a \<^verbatim>\<open>TypeError\<close>
  (\<^verbatim>\<open>null\<close>; an absent value is handled by the callers).
\<close>

definition showInt :: "int \<Rightarrow> string" where
  "showInt i = (if i < 0 then ''-'' @ showNat (nat (- i)) else showNat (nat i))"

fun joinWith :: "string \<Rightarrow> string list \<Rightarrow> string" where
  "joinWith sep [] = []"
| "joinWith sep [x] = x"
| "joinWith sep (x # y # ys) = x @ sep @ joinWith sep (y # ys)"

fun toStringJ :: "json \<Rightarrow> string option" where
  "toStringJ JNull = None"
| "toStringJ (JBool b) = Some (if b then ''true'' else ''false'')"
| "toStringJ (JNum n) = Some (showInt n)"
| "toStringJ (JStr s) = Some s"
| "toStringJ (JArr xs) =
     Some (joinWith '','' (map (\<lambda>x. case toStringJ x of Some t \<Rightarrow> t | None \<Rightarrow> []) xs))"
| "toStringJ (JObj kvs) = Some ''[object Object]''"

text \<open>\<^verbatim>\<open>doc._id.toString()\<close>.\<close>

definition idString :: "document \<Rightarrow> string option" where
  "idString doc = (case getField doc ''_id'' of None \<Rightarrow> None | Some i \<Rightarrow> toStringJ i)"

text \<open>\<^verbatim>\<open>key.split('.')\<close>.\<close>

fun splitOn :: "char \<Rightarrow> string \<Rightarrow> string list" where
  "splitOn c [] = [[]]"
| "splitOn c (x # xs) =
     (if x = c then [] # splitOn c xs
      else (case splitOn c xs of
              w # ws \<Rightarrow> (x # w) # ws
            | [] \<Rightarrow> [[x]]))"

definition nthOpt :: "'a list \<Rightarrow> nat \<Rightarrow> 'a option" where
  "nthOpt xs i = (if i < length xs then Some (xs ! i) else None)"

text \<open>A string that is absent or empty is falsy.\<close>

definition nonEmpty :: "string option \<Rightarrow> string option" where
  "nonEmpty x = (case x of Some c \<Rightarrow> if c = [] then None else Some c | None \<Rightarrow> None)"

section \<open>find (index.js)\<close>

text \<open>
  \<^verbatim>\<open>referenceModel.find(collectionQuery, {fields: fieldsObj}, callback)\<close>: the
  \<^verbatim>\<open>find\<close> of the model of the referenced collection.  Its query holds one path segment
  and possibly \<^verbatim>\<open>_id\<close>, no dot-notation key, so it goes straight to the datastore.
\<close>

definition connectionErrorOr :: "error \<Rightarrow> error" where
  "connectionErrorOr e =
     (if e = StorageError ''DB_DISCONNECTED'' then createConnectionError else e)"

definition referenceFind ::
  "model \<Rightarrow> string \<Rightarrow> document \<Rightarrow> state \<Rightarrow> state \<times> (error + document list)" where
  "referenceFind m coll collectionQuery s =
     (let r = referenceModels m coll;
          query = ref_makeCaseInsensitive r collectionQuery;
          s1 = emit (ReferenceFind coll collectionQuery) s
      in if \<not> ref_validateQuery r query
         then (s1, Inl (createValidationError (Some ''Bad Query'')))
         else if \<not> db s1 then (s1, Inl createConnectionError)
         else (case datastore_find coll query s1 of
                 (s2, Inl e) \<Rightarrow> (s2, Inl (connectionErrorOr e))
               | (s2, Inr (results, tc)) \<Rightarrow>
                   (s2, Inr (if ref_compose r then ref_composer_compose r results
                             else results))))"

text \<open>
  The test of the \<^verbatim>\<open>children\<close> filter of the link-key branch, for one result and one
  parent; \<open>None\<close> where the test throws a \<^verbatim>\<open>TypeError\<close>.
\<close>

definition sameString :: "json option \<Rightarrow> json option \<Rightarrow> bool option" where
  "sameString a b =
     (case (a, b) of
        (Some x, Some y) \<Rightarrow>
          (case (toStringJ x, toStringJ y) of
             (Some t, Some u) \<Rightarrow> Some (t = u)
           | _ \<Rightarrow> None)
      | _ \<Rightarrow> None)"

definition linkMatches :: "json option \<Rightarrow> json option \<Rightarrow> bool option" where
  "linkMatches link parentId =
     (if \<not> truthy link then Some False
      else (case link of
              Some (JStr t) \<Rightarrow> sameString link parentId
            | Some (JObj kvs) \<Rightarrow>
                (case sameString (getField kvs ''_id'') parentId of
                   None \<Rightarrow> None
                 | Some True \<Rightarrow> Some True
                 | Some False \<Rightarrow> sameString link parentId)
            | Some (JArr xs) \<Rightarrow>
                (if toStringJ (JArr xs) = Some ''[object Object]'' then None
                 else sameString link parentId)
            | _ \<Rightarrow> Some False))"

definition childrenOf :: "string \<Rightarrow> document list \<Rightarrow> document \<Rightarrow> document list option" where
  "childrenOf linkKey results parent =
     map_option (\<lambda>flags. map fst (filter snd (zip results flags)))
       (those (map (\<lambda>result. linkMatches (getField result linkKey) (getField parent ''_id''))
                 results))"

definition linkedIds ::
  "model \<Rightarrow> string \<Rightarrow> string option \<Rightarrow> json \<Rightarrow> document list \<Rightarrow> string list option" where
  "linkedIds m linkKey queryKey queryValue results =
     (let parents = filter (\<lambda>result. regexTest m queryValue
                               (case queryKey of None \<Rightarrow> None | Some k \<Rightarrow> getField result k))
                      results
      in map_option concat
           (those (map (\<lambda>parent.
                     (case childrenOf linkKey results parent of
                        None \<Rightarrow> None
                      | Some children \<Rightarrow> those (map idString children)))
                   parents)))"

text \<open>
  One entry of the \<^verbatim>\<open>queue\<close> of \<^verbatim>\<open>find\<close>, for the reference-field key \<open>key\<close> with
  the condition \<open>queryValue\<close>, in three parts: the collection to query
  (\<^verbatim>\<open>collection\<close>), the query for it (\<^verbatim>\<open>collectionQuery\<close>), and the body of the callback
  of \<^verbatim>\<open>referenceModel.find\<close>, which rewrites \<^verbatim>\<open>query[collectionKey]\<close>.
\<close>

definition referenceCollectionOf :: "model \<Rightarrow> string \<Rightarrow> string" where
  "referenceCollectionOf m key =
     (let keyParts = splitOn CHR ''.'' key;
          collectionKey = hd keyParts;
          collectionSettings = getSchemaOrParent m collectionKey
      in if collectionKey \<noteq> collection collectionSettings
         then collection collectionSettings else collectionKey)"

definition collectionQueryOf :: "string \<Rightarrow> json \<Rightarrow> document \<Rightarrow> document" where
  "collectionQueryOf key queryValue query =
     (let keyParts = splitOn CHR ''.'' key;
          collectionKey = hd keyParts;
          collectionQuery = (if length keyParts = 2 then [(keyParts ! 1, queryValue)] else [])
      in case getField query collectionKey of
           Some v \<Rightarrow> if truthy (Some v) then setField ''_id'' v collectionQuery
                     else collectionQuery
         | None \<Rightarrow> collectionQuery)"

text \<open>
  The condition for one-level paths: \<^verbatim>\<open>multiple ? {'$containsAny': ids} : ids[0]\<close>.
\<close>

definition idCondition :: "bool \<Rightarrow> string list \<Rightarrow> json" where
  "idCondition isMultiple ids =
     (if isMultiple then JObj [(''$containsAny'', JArr (map JStr ids))] else JStr (hd ids))"

definition rewriteQuery ::
  "model \<Rightarrow> string \<Rightarrow> json \<Rightarrow> document \<Rightarrow> document list \<Rightarrow> error + document" where
  "rewriteQuery m key queryValue query results =
     (let keyParts = splitOn CHR ''.'' key;
          collectionKey = hd keyParts;
          collectionSettings = getSchemaOrParent m collectionKey;
          linkKey = (if length keyParts = 2 then None else nonEmpty (nthOpt keyParts 1));
          queryKey = (if length keyParts = 2 then nthOpt keyParts 1 else nthOpt keyParts 2)
      in if results \<noteq> [] then
           (case linkKey of
              None \<Rightarrow>
                (case those (map idString results) of
                   None \<Rightarrow> Inl (TypeError ''toString'')
                 | Some ids \<Rightarrow>
                     Inr (setField collectionKey
                            (idCondition (multiple collectionSettings) ids) query))
            | Some lk \<Rightarrow>
                (case linkedIds m lk queryKey queryValue results of
                   None \<Rightarrow> Inl (TypeError ''toString'')
                 | Some ids \<Rightarrow>
                     Inr (setField collectionKey (JObj [(''$in'', JArr (map JStr ids))]) query)))
         else
           Inr (setField collectionKey
                  (if multiple collectionSettings then JObj [(''$in'', JArr [])] else JStr [])
                  query))"

definition resolveReference ::
  "model \<Rightarrow> string \<times> json \<Rightarrow> document \<Rightarrow> state \<Rightarrow> state \<times> (error + document)" where
  "resolveReference m kv query s =
     (case referenceFind m (referenceCollectionOf m (fst kv))
             (collectionQueryOf (fst kv) (snd kv) query) s of
        (s1, Inl e) \<Rightarrow> (s1, Inl e)
      | (s1, Inr results) \<Rightarrow> (s1, rewriteQuery m (fst kv) (snd kv) query results))"

text \<open>
  \<^verbatim>\<open>async.series(queue, ...)\<close>: the entries run one after the other; an error of a
  reference lookup goes to the callback of \<^verbatim>\<open>find\<close> and nothing more runs.
\<close>

fun resolveReferences ::
  "model \<Rightarrow> document \<Rightarrow> document \<Rightarrow> state \<Rightarrow> state \<times> (error + document)" where
  "resolveReferences m [] query s = (s, Inr query)"
| "resolveReferences m (kv # kvs) query s =
     (case resolveReference m kv query s of
        (s1, Inl e) \<Rightarrow> (s1, Inl e)
      | (s1, Inr query') \<Rightarrow> resolveReferences m kvs query' s1)"

text \<open>\<^verbatim>\<open>runFind\<close>: the find on the datastore and the composition of its results.\<close>

definition runFind ::
  "model \<Rightarrow> document \<Rightarrow> state \<Rightarrow> state \<times> (error + document list \<times> nat)" where
  "runFind m query s =
     (case datastore_find (name m) query s of
        (s1, Inl e) \<Rightarrow> (s1, Inl (connectionErrorOr e))
      | (s1, Inr (results, tc)) \<Rightarrow>
          (s1, Inr (if truthy (compose s1) then composer_compose m results else results,
                    tc)))"

text \<open>
  \<^verbatim>\<open>Model.prototype.find\<close>.  The result is what the callback receives.  The
  \<^verbatim>\<open>includeHistory\<close> option (\<^verbatim>\<open>injectHistory\<close>) is left out.
\<close>

definition find_op ::
  "model \<Rightarrow> document \<Rightarrow> document \<Rightarrow> state \<Rightarrow> state \<times> (error + document list \<times> nat)" where
  "find_op m query0 options s =
     (let query = makeCaseInsensitive m query0;
          s1 = (case getField options ''compose'' of
                  Some v \<Rightarrow> s\<lparr>compose := Some v\<rparr>
                | None \<Rightarrow> s)
      in if \<not> validateQuery m query
         then (s1, Inl (createValidationError (Some ''Bad Query'')))
         else if \<not> db s1 then (s1, Inl createConnectionError)
         else if containsNestedReferenceFields m query then
           (case processReferenceFieldQuery m query of
              (q0, referenceFieldQuery) \<Rightarrow>
                (case resolveReferences m referenceFieldQuery q0 s1 of
                   (s2, Inl e) \<Rightarrow> (s2, Inl e)
                 | (s2, Inr q) \<Rightarrow> runFind m q s2))
         else runFind m query s1)"

section \<open>create, update and delete (index.js)\<close>

text \<open>\<^verbatim>\<open>formatQuery\<close>.\<close>

definition formatQuery :: "string \<Rightarrow> document \<Rightarrow> document" where
  "formatQuery pfx query =
     fold (\<lambda>(key, v) newQuery.
             if pfx \<noteq> ''_'' \<and> startsWith key pfx
             then setField (''_'' @ drop 1 key) v newQuery
             else setField key v newQuery)
          query []"

text \<open>
  The request is given by its \<^verbatim>\<open>params\<close>, \<open>None\<close> when no request is passed:
  \<^verbatim>\<open>isRestIDQuery = req && req.params.id\<close>.
\<close>

type_synonym request = "document option"

definition isRestIDQuery :: "request \<Rightarrow> bool" where
  "isRestIDQuery req = (case req of None \<Rightarrow> False | Some params \<Rightarrow> truthy (getField params ''id''))"

subsection \<open>create\<close>

text \<open>
  The validation loop: \<^verbatim>\<open>validation\<close> stays at the first failure; \<open>None\<close> is
  \<^verbatim>\<open>undefined\<close>, which the empty array leaves behind.
\<close>

definition validateEach :: "model \<Rightarrow> document list \<Rightarrow> bool option" where
  "validateEach m documents =
     fold (\<lambda>doc validation.
             if validation = None \<or> validation = Some True
             then Some (validateSchema m doc False) else validation)
          documents None"

text \<open>\<^verbatim>\<open>saveDocuments\<close> of \<^verbatim>\<open>create\<close>.\<close>

definition saveDocuments :: "model \<Rightarrow> document list \<Rightarrow> state \<Rightarrow> state" where
  "saveDocuments m documents s =
     (case datastore_insert (name m) documents s of
        (s1, Inl e) \<Rightarrow> done_cb (Inl (connectionErrorOr e)) s1
      | (s1, Inr results) \<Rightarrow>
          (let composed = composer_compose m results;
               s2 = emit (SearchIndex composed) s1;
               s3 = fold (\<lambda>doc. afterHooks ''afterCreate'' (afterCreate (settings m)) (JObj doc))
                      composed s2
           in done_cb
                (Inr (Created
                        (documentsOf (formatResultSetForOutput (internalFieldsPrefix m)
                                        (Multiple composed)))))
                s3))"

text \<open>
  The \<^verbatim>\<open>beforeCreate\<close> chains, one for each document.  Every chain ends in the same
  final callback, which counts the chains; the one that completes the count decides with
  its own \<^verbatim>\<open>err\<close>.  Which chain that is depends on the scheduling of the handlers, so its
  index \<open>lastChain\<close> is a parameter.  The calls of the chains are recorded chain by chain.
\<close>

fun hookChains :: "hook list \<Rightarrow> document list \<Rightarrow> state \<Rightarrow> state \<times> (json + json) list" where
  "hookChains hs [] s = (s, [])"
| "hookChains hs (doc # docs) s =
     (case runHooks ''beforeCreate'' 0 hs [] (JObj doc) s of
        (s1, r) \<Rightarrow> (case hookChains hs docs s1 of (s2, rs) \<Rightarrow> (s2, r # rs)))"

definition startInsert :: "model \<Rightarrow> document list \<Rightarrow> nat \<Rightarrow> state \<Rightarrow> state" where
  "startInsert m documents lastChain s =
     (case beforeCreate (settings m) of
        None \<Rightarrow> saveDocuments m documents s
      | Some hs \<Rightarrow>
          (case hookChains hs documents s of
             (s1, rs) \<Rightarrow>
               (case rs ! (min lastChain (length rs - 1)) of
                  Inl err \<Rightarrow> done_cb (Inl (CreateHookError err)) s1
                | Inr result \<Rightarrow> saveDocuments m documents s1)))"

text \<open>
  The loop over \<^verbatim>\<open>composer.createFromComposed\<close>: an error goes to \<^verbatim>\<open>done\<close>, and the
  callback of the last document starts the insert.
\<close>

fun createFromComposedEach ::
  "model \<Rightarrow> document list \<Rightarrow> nat \<Rightarrow> document list \<Rightarrow> state \<Rightarrow> state" where
  "createFromComposedEach m documents lastChain [] s = s"
| "createFromComposedEach m documents lastChain (doc # rest) s =
     (case createFromComposed m doc of
        Some e \<Rightarrow> createFromComposedEach m documents lastChain rest
                    (done_cb (Inl (ComposedError e)) s)
      | None \<Rightarrow>
          if rest = [] then startInsert m documents lastChain s
          else createFromComposedEach m documents lastChain rest s)"

text \<open>
  \<^verbatim>\<open>Model.prototype.create\<close>, for an array of documents (one document is the array of
  length one) and an \<^verbatim>\<open>internals\<close> object.
\<close>

definition create_op ::
  "model \<Rightarrow> document list \<Rightarrow> document \<Rightarrow> nat \<Rightarrow> state \<Rightarrow> state" where
  "create_op m documents0 internals lastChain s =
     (if \<not> db s then done_cb (Inl createConnectionError) s
      else (case validateEach m documents0 of
              None \<Rightarrow> emit (Throw (TypeError ''validation is undefined'')) s
            | Some False \<Rightarrow> done_cb (Inl (createValidationError (Some ''Validation Failed''))) s
            | Some True \<Rightarrow>
                (let documents1 = map (\<lambda>doc. assign doc internals) documents0;
                     documents2 = (if history m
                                   then map (setField ''_history'' (JArr [])) documents1
                                   else documents1);
                     documents = map (setField ''_version'' (JNum 1)) documents2
                 in createFromComposedEach m documents lastChain documents s)))"

subsection \<open>update\<close>

text \<open>The part of \<^verbatim>\<open>saveDocuments\<close> of \<^verbatim>\<open>update\<close> that follows the history.\<close>

definition afterUpdateFind ::
  "model \<Rightarrow> document list \<Rightarrow> nat \<Rightarrow> bool \<Rightarrow> state \<Rightarrow> state" where
  "afterUpdateFind m updatedDocs matchedCount bypassOutputFormatting s =
     (case those (map idString updatedDocs) of
        None \<Rightarrow> emit (LogError (TypeError ''toString'')) s
      | Some ids \<Rightarrow>
          (case find_op m [(''_id'', JObj [(''$in'', JArr (map JStr ids))])]
                  [(''compose'', JBool True)] s of
             (s1, Inl e) \<Rightarrow> done_cb (Inl e) s1
           | (s1, Inr (results, tc)) \<Rightarrow>
               if matchedCount = 0 then done_cb (Inr (Results results tc)) s1
               else
                 (let s2 = afterHooks ''afterUpdate'' (afterUpdate (settings m))
                             (JArr (map JObj results)) s1
                  in if \<not> searcher m then emit (Throw (TypeError ''searcher is undefined'')) s2
                     else done_cb
                            (Inr (Results
                                    (if bypassOutputFormatting then results
                                     else documentsOf
                                            (formatResultSetForOutput (internalFieldsPrefix m)
                                               (Multiple results)))
                                    tc))
                            (emit (SearchIndex results) s2))))"

text \<open>
  \<^verbatim>\<open>saveDocuments\<close> of \<^verbatim>\<open>update\<close>: the update on the datastore, the not-found test on
  its \<^verbatim>\<open>matchedCount\<close>, the history, whose failure is caught by a handler that logs it.
\<close>

definition saveUpdate ::
  "model \<Rightarrow> document \<Rightarrow> document \<Rightarrow> document list \<Rightarrow> request \<Rightarrow> bool \<Rightarrow> state \<Rightarrow> state" where
  "saveUpdate m query setUpdate updatedDocs req bypassOutputFormatting s =
     (case datastore_update (name m) query setUpdate s of
        (s1, Inl e) \<Rightarrow> done_cb (Inl e) s1
      | (s1, Inr matchedCount) \<Rightarrow>
          if isRestIDQuery req \<and> matchedCount = 0
          then done_cb (Inl (NotFoundError ''Not Found'')) s1
          else
            (case (if history m
                   then history_createEach m updatedDocs ''update''
                          (emit (HistoryCreateEach updatedDocs ''update'') s1)
                   else (s1, None)) of
               (s2, Some e) \<Rightarrow> emit (LogError e) s2
             | (s2, None) \<Rightarrow>
                 afterUpdateFind m updatedDocs matchedCount bypassOutputFormatting s2))"

text \<open>
  \<^verbatim>\<open>startUpdate\<close>: a second find, then the \<^verbatim>\<open>beforeUpdate\<close> pipeline.  The result of
  the pipeline is assigned to the variable \<^verbatim>\<open>update\<close>; \<^verbatim>\<open>setUpdate\<close> was built before.
\<close>

definition startUpdate ::
  "model \<Rightarrow> document \<Rightarrow> document \<Rightarrow> document \<Rightarrow> document list \<Rightarrow> request \<Rightarrow> bool
     \<Rightarrow> state \<Rightarrow> state" where
  "startUpdate m query update setUpdate updatedDocs req bypassOutputFormatting s =
     (case find_op m query [(''compose'', JBool False)] s of
        (s1, Inl e) \<Rightarrow> done_cb (Inl e) s1
      | (s1, Inr result) \<Rightarrow>
          (case beforeUpdate (settings m) of
             Some hs \<Rightarrow>
               (case runHooks ''beforeUpdate'' 0 hs updatedDocs (JObj update) s1 of
                  (s2, Inl err) \<Rightarrow> done_cb (Inl (HookError err)) s2
                | (s2, Inr result) \<Rightarrow>
                    saveUpdate m query setUpdate updatedDocs req bypassOutputFormatting s2)
           | None \<Rightarrow> saveUpdate m query setUpdate updatedDocs req bypassOutputFormatting s1))"

text \<open>\<^verbatim>\<open>Model.prototype.update\<close>, with an \<^verbatim>\<open>internals\<close> object.\<close>

definition update_op ::
  "model \<Rightarrow> document \<Rightarrow> document \<Rightarrow> document \<Rightarrow> request \<Rightarrow> bool \<Rightarrow> state \<Rightarrow> state" where
  "update_op m query0 update0 internals req bypassOutputFormatting s =
     (if \<not> db s then done_cb (Inl createConnectionError) s
      else if \<not> validateQuery m query0
      then done_cb (Inl (createValidationError (Some ''Bad Query''))) s
      else if \<not> validateSchema m update0 True
      then done_cb (Inl (createValidationError None)) s
      else
        (let query = formatQuery (internalFieldsPrefix m) query0;
             update = assign (convertDateTimeForSave m update0) internals;
             setUpdate = [(''$set'', JObj update), (''$inc'', JObj [(''_version'', JNum 1)])]
         in case find_op m query [] s of
              (s1, Inl e) \<Rightarrow> done_cb (Inl e) s1
            | (s1, Inr (results, tc)) \<Rightarrow>
                (case createFromComposed m update of
                   Some e \<Rightarrow> done_cb (Inl (ComposedError e)) s1
                 | None \<Rightarrow>
                     startUpdate m query update setUpdate results req
                       bypassOutputFormatting s1)))"

subsection \<open>delete\<close>

text \<open>\<^verbatim>\<open>deleteDocuments\<close>.\<close>

definition deleteDocuments ::
  "model \<Rightarrow> document \<Rightarrow> document list \<Rightarrow> nat \<Rightarrow> state \<Rightarrow> state" where
  "deleteDocuments m query deletedDocs totalCount s =
     (case datastore_delete (name m) query s of
        (s1, Inl e) \<Rightarrow> done_cb (Inl e) s1
      | (s1, Inr deletedCount) \<Rightarrow>
          (let s2 = (if deletedCount > 0
                     then afterHooks ''afterDelete'' (afterDelete (settings m)) (JObj query)
                            (emit (SearchDelete deletedDocs) s1)
                     else s1)
           in done_cb (Inr (Deleted deletedCount (int totalCount - int deletedCount))) s2))"

text \<open>
  The part of \<^verbatim>\<open>delete\<close> after the not-found test: the history (its failure is logged
  and handed to \<^verbatim>\<open>done\<close>), the \<^verbatim>\<open>beforeDelete\<close> pipeline, the deletion.
\<close>

definition deleteWithHistory ::
  "model \<Rightarrow> document \<Rightarrow> document list \<Rightarrow> nat \<Rightarrow> state \<Rightarrow> state" where
  "deleteWithHistory m query deletedDocs totalCount s =
     (case (if history m \<and> deletedDocs \<noteq> []
            then history_createEach m deletedDocs ''delete''
                   (emit (HistoryCreateEach deletedDocs ''delete'') s)
            else (s, None)) of
        (s1, Some e) \<Rightarrow> done_cb (Inl e) (emit (LogError e) s1)
      | (s1, None) \<Rightarrow>
          (case beforeDelete (settings m) of
             Some hs \<Rightarrow>
               (case runHooks ''beforeDelete'' 0 hs deletedDocs (JObj query) s1 of
                  (s2, Inl err) \<Rightarrow> done_cb (Inl (HookError err)) s2
                | (s2, Inr result) \<Rightarrow> deleteDocuments m query deletedDocs totalCount s2)
           | None \<Rightarrow> deleteDocuments m query deletedDocs totalCount s1))"

text \<open>\<^verbatim>\<open>Model.prototype.delete\<close>.\<close>

definition delete_op :: "model \<Rightarrow> document \<Rightarrow> request \<Rightarrow> state \<Rightarrow> state" where
  "delete_op m query0 req s =
     (if \<not> validateQuery m query0
      then done_cb (Inl (createValidationError (Some ''Bad Query''))) s
      else if \<not> db s then done_cb (Inl createConnectionError) s
      else
        (let query = formatQuery (internalFieldsPrefix m) query0
         in case find_op m [] [(''compose'', JBool False)] s of
              (s1, Inl e) \<Rightarrow> done_cb (Inl e) s1
            | (s1, Inr (allDocs, totalCount)) \<Rightarrow>
                (case find_op m query [(''compose'', JBool False)] s1 of
                   (s2, Inl e) \<Rightarrow> done_cb (Inl e) s2
                 | (s2, Inr (deletedDocs, n)) \<Rightarrow>
                     if isRestIDQuery req \<and> deletedDocs = []
                     then done_cb (Inl (NotFoundError ''Document not found'')) s2
                     else deleteWithHistory m query deletedDocs totalCount s2)))"

section \<open>The query rewriting of the reference field type (fields/reference.js)\<close>

text \<open>
  What \<^verbatim>\<open>createModelChain\<close> and \<^verbatim>\<open>processTree\<close> read from the models, which belong to
  a model class that is outside the sources: \<^verbatim>\<open>model.getField(name)\<close> (the type of the
  field and the \<^verbatim>\<open>collection\<close> of its settings, \<open>None\<close> when the model has no such
  field) and \<^verbatim>\<open>rootModel.getForeignModel(collection)\<close> (\<open>None\<close> for \<^verbatim>\<open>undefined\<close>).  A
  model is named by its collection.
\<close>

record fieldSchema =
  fieldType :: "string option"
  fieldCollection :: "string option"

record schemas =
  getFieldOf :: "string \<Rightarrow> string \<Rightarrow> fieldSchema option"
  getForeignModel :: "string \<Rightarrow> string option"

definition lowerChar :: "char \<Rightarrow> char" where
  "lowerChar c = (if CHR ''A'' \<le> c \<and> c \<le> CHR ''Z'' then char_of (of_char c + (32::nat)) else c)"

definition toLowerCase :: "string \<Rightarrow> string" where
  "toLowerCase s = map lowerChar s"

text \<open>
  The validation of a node: \<^verbatim>\<open>!type || !type.length || type.toLowerCase() !== 'reference'\<close>.
\<close>

definition invalidReference :: "fieldSchema \<Rightarrow> bool" where
  "invalidReference referenceField =
     (case fieldType referenceField of
        None \<Rightarrow> True
      | Some t \<Rightarrow> t = [] \<or> toLowerCase t \<noteq> ''reference'')"

text \<open>
  One step of the \<^verbatim>\<open>reduce\<close> of \<^verbatim>\<open>createModelChain\<close>.  The accumulator is the chain,
  \<open>None\<close> for the \<^verbatim>\<open>null\<close> that flags an invalid node, or the \<^verbatim>\<open>TypeError\<close> thrown when
  a property of \<^verbatim>\<open>undefined\<close> is read.
\<close>

definition chainStep ::
  "schemas \<Rightarrow> string \<Rightarrow> string list \<Rightarrow> nat
     \<Rightarrow> error + (string option list) option \<Rightarrow> error + (string option list) option" where
  "chainStep sch rootModel fs index acc =
     (case acc of
        Inl e \<Rightarrow> Inl e
      | Inr None \<Rightarrow> Inr None
      | Inr (Some chain) \<Rightarrow>
          if chain = [] then Inr (Some (chain @ [Some rootModel]))
          else
            (case last chain of
               None \<Rightarrow> Inl (TypeError ''getField'')
             | Some nodeModel \<Rightarrow>
                 (case getFieldOf sch nodeModel (hd (splitOn CHR ''@'' (fs ! (index - 1)))) of
                    None \<Rightarrow> Inl (TypeError ''type'')
                  | Some referenceField \<Rightarrow>
                      if invalidReference referenceField then Inr None
                      else
                        (case (case nonEmpty (nthOpt (splitOn CHR ''@'' (fs ! index)) 1) of
                                 Some c \<Rightarrow> Some c
                               | None \<Rightarrow> nonEmpty (fieldCollection referenceField)) of
                           None \<Rightarrow> Inr (Some (chain @ [Some nodeModel]))
                         | Some referenceCollection \<Rightarrow>
                             Inr (Some (chain @ [getForeignModel sch referenceCollection]))))))"

definition createModelChain ::
  "schemas \<Rightarrow> string \<Rightarrow> string list \<Rightarrow> error + (string option list) option" where
  "createModelChain sch rootModel fs =
     fold (chainStep sch rootModel fs) [0..<length fs] (Inr (Some []))"

text \<open>
  \<^verbatim>\<open>isOperatorQuery\<close>: \<^verbatim>\<open>Boolean(tree && Object.keys(tree).every(key => key[0] === '$'))\<close>.
  A number or \<^verbatim>\<open>true\<close> has no keys, a string and an array have their indices as keys.
\<close>

fun isOperatorQuery :: "json option \<Rightarrow> bool" where
  "isOperatorQuery (Some (JObj kvs)) = list_all (\<lambda>(k, v). k \<noteq> [] \<and> hd k = CHR ''$'') kvs"
| "isOperatorQuery (Some (JArr xs)) = (xs = [])"
| "isOperatorQuery (Some (JStr s)) = False"
| "isOperatorQuery v = truthy v"

text \<open>
  Modelled from the spec: \<^verbatim>\<open>objectPath.set(tree, path, value)\<close> of the object-path
  library, which makes the tree of section 4.4 out of the dot-notation keys (the comment
  above \<^verbatim>\<open>inputTree\<close> shows it).  An intermediate node that is not an object is replaced
  by one.
\<close>

fun setPath :: "string list \<Rightarrow> json \<Rightarrow> document \<Rightarrow> document" where
  "setPath [] v obj = obj"
| "setPath [k] v obj = setField k v obj"
| "setPath (k # k' # ks) v obj =
     (case getField obj k of
        Some (JObj sub) \<Rightarrow> setField k (JObj (setPath (k' # ks) v sub)) obj
      | _ \<Rightarrow> setField k (JObj (setPath (k' # ks) v [])) obj)"

definition inputTree :: "document \<Rightarrow> document" where
  "inputTree input = fold (\<lambda>(path, v) tree. setPath (splitOn CHR ''.'' path) v tree) input []"

text \<open>The keys and values of a node: an array has its indices as keys.\<close>

fun asTree :: "json \<Rightarrow> document" where
  "asTree (JObj kvs) = kvs"
| "asTree (JArr xs) = zip (map showNat [0..<length xs]) xs"
| "asTree v = []"

text \<open>
  The test before the recursive call:
  \<^verbatim>\<open>tree[key] && typeof tree[key] === 'object' && !isOperatorQuery(tree[key])\<close>.
\<close>

fun isSubtree :: "json \<Rightarrow> bool" where
  "isSubtree (JObj kvs) = (\<not> isOperatorQuery (Some (JObj kvs)))"
| "isSubtree (JArr xs) = (\<not> isOperatorQuery (Some (JArr xs)))"
| "isSubtree v = False"

text \<open>
  Modelled from the spec: \<^verbatim>\<open>model.find({query})\<close> on the last model of the chain.  The
  field type is written against a model class whose find returns a promise, which is
  outside the sources; its find is taken to be a find on the datastore (section 6).
\<close>

definition modelFind :: "string \<Rightarrow> document \<Rightarrow> state \<Rightarrow> state \<times> (error + document list)" where
  "modelFind coll query s =
     (case datastore_find coll query (emit (ReferenceFind coll query) s) of
        (s1, Inl e) \<Rightarrow> (s1, Inl e)
      | (s1, Inr (results, tc)) \<Rightarrow> (s1, Inr results))"

text \<open>
  The last step of \<^verbatim>\<open>processTree\<close>, after the keys of the node are processed.  The
  \<^verbatim>\<open>forEach\<close> that looks for an empty \<^verbatim>\<open>$containsAny\<close> has a \<^verbatim>\<open>return\<close> in its callback,
  which ends the callback and nothing else; the loop reads \<^verbatim>\<open>query[field].$containsAny\<close>,
  which throws on \<^verbatim>\<open>null\<close>.  After it \<^verbatim>\<open>model.find\<close> runs in every case.
\<close>

definition finishNode ::
  "string option \<Rightarrow> string list \<Rightarrow> document \<Rightarrow> state \<Rightarrow> state \<times> (error + json)" where
  "finishNode model path query s =
     (if path = [] then (s, Inr (JObj query))
      else if list_ex (\<lambda>(k, v). v = JNull) query then (s, Inl (TypeError ''$containsAny''))
      else (case model of
              None \<Rightarrow> (s, Inl (TypeError ''find''))
            | Some coll \<Rightarrow>
                (case modelFind coll query s of
                   (s1, Inl e) \<Rightarrow> (s1, Inl e)
                 | (s1, Inr results) \<Rightarrow>
                     (case those (map idString results) of
                        None \<Rightarrow> (s1, Inl (TypeError ''toString''))
                      | Some ids \<Rightarrow>
                          (s1, Inr (JObj [(''$containsAny'', JArr (map JStr ids))]))))))"

text \<open>
  The model of a node: \<^verbatim>\<open>createModelChain(this, path.concat(firstKey))\<close> and its last
  element, computed before the keys are processed.
\<close>

definition nodeModel :: "schemas \<Rightarrow> string \<Rightarrow> string list \<Rightarrow> document \<Rightarrow> error + string option" where
  "nodeModel sch rootModel path tree =
     (case tree of
        [] \<Rightarrow> if path = [] then Inr (Some rootModel) else Inl (TypeError ''split'')
      | (firstKey, v) # rest \<Rightarrow>
          (case createModelChain sch rootModel (path @ [firstKey]) of
             Inl e \<Rightarrow> Inl e
           | Inr None \<Rightarrow> Inl (TypeError ''length'')
           | Inr (Some modelChain) \<Rightarrow> Inr (last modelChain)))"

fun jsize :: "json \<Rightarrow> nat" where
  "jsize (JArr xs) = Suc (sum_list (map jsize xs))"
| "jsize (JObj kvs) = Suc (sum_list (map (\<lambda>kv. jsize (snd kv)) kvs))"
| "jsize v = 1"

definition treeSize :: "document \<Rightarrow> nat" where
  "treeSize tree = sum_list (map (\<lambda>kv. jsize (snd kv)) tree)"

lemma map_snd_indexed: "map snd (zip (map showNat [0..<length xs]) xs) = xs"
  by (rule map_snd_zip) simp

lemma jsize_indexed:
  "map (\<lambda>kv. jsize (snd kv)) (zip (map showNat [0..<length xs]) xs) = map jsize xs"
proof -
  have "map (\<lambda>kv. jsize (snd kv)) (zip (map showNat [0..<length xs]) xs)
      = map jsize (map snd (zip (map showNat [0..<length xs]) xs))"
    by (simp only: map_map comp_def)
  then show ?thesis by (simp only: map_snd_indexed)
qed

lemma treeSize_asTree: "isSubtree v \<Longrightarrow> treeSize (asTree v) < jsize v"
proof (cases v)
  case (JArr xs)
  show ?thesis unfolding JArr
    by (simp only: treeSize_def asTree.simps jsize.simps jsize_indexed lessI)
next
  case (JObj kvs)
  show ?thesis unfolding JObj
    by (simp only: treeSize_def asTree.simps jsize.simps lessI)
next
  case JNull
  assume "isSubtree v" then show ?thesis unfolding JNull by (simp only: isSubtree.simps)
next
  case (JBool b)
  assume "isSubtree v" then show ?thesis unfolding JBool by (simp only: isSubtree.simps)
next
  case (JNum n)
  assume "isSubtree v" then show ?thesis unfolding JNum by (simp only: isSubtree.simps)
next
  case (JStr t)
  assume "isSubtree v" then show ?thesis unfolding JStr by (simp only: isSubtree.simps)
qed

lemma jsize_pos: "0 < jsize v"
  by (cases v) (simp_all only: jsize.simps zero_less_Suc zero_less_one)

text \<open>
  \<^verbatim>\<open>processTree(tree, path)\<close>: \<open>processKeys\<close> is the queue of the keys of the node, run
  one key after the other.
\<close>

function processTree ::
    "schemas \<Rightarrow> string \<Rightarrow> document \<Rightarrow> string list \<Rightarrow> state \<Rightarrow> state \<times> (error + json)"
  and processKeys ::
    "schemas \<Rightarrow> string \<Rightarrow> document \<Rightarrow> string list \<Rightarrow> document \<Rightarrow> state
       \<Rightarrow> state \<times> (error + document)"
where
  "processTree sch rootModel tree path s =
     (case nodeModel sch rootModel path tree of
        Inl e \<Rightarrow> (s, Inl e)
      | Inr model \<Rightarrow>
          (case processKeys sch rootModel tree path [] s of
             (s1, Inl e) \<Rightarrow> (s1, Inl e)
           | (s1, Inr query) \<Rightarrow> finishNode model path query s1))"
| "processKeys sch rootModel [] path query s = (s, Inr query)"
| "processKeys sch rootModel ((key, v) # rest) path query s =
     (let canonicalKey = hd (splitOn CHR ''@'' key)
      in if isSubtree v
         then (case processTree sch rootModel (asTree v) (path @ [key]) s of
                 (s1, Inl e) \<Rightarrow> (s1, Inl e)
               | (s1, Inr result) \<Rightarrow>
                   processKeys sch rootModel rest path (assign query [(canonicalKey, result)]) s1)
         else processKeys sch rootModel rest path (assign query [(canonicalKey, v)]) s)"
  by pat_completeness auto
termination
proof (relation "measure (\<lambda>x. case x of
          Inl (sch, rootModel, tree, path, s) \<Rightarrow> 2 * treeSize tree + 1
        | Inr (sch, rootModel, tree, path, query, s) \<Rightarrow> 2 * treeSize tree)", goal_cases)
  case 1
  then show ?case by simp
next
  case (2 sch rootModel tree path s x2)
  then show ?case by simp
next
  case (3 sch rootModel key v rest path query s x)
  then show ?case using treeSize_asTree[of v] by (simp add: treeSize_def)
next
  case (4 sch rootModel key v rest path query s x xa y b)
  show ?case using jsize_pos[of v] by (simp add: treeSize_def)
next
  case (5 sch rootModel key v rest path query s x)
  show ?case using jsize_pos[of v] by (simp add: treeSize_def)
qed

text \<open>\<^verbatim>\<open>beforeQuery\<close>.\<close>

definition beforeQuery ::
  "schemas \<Rightarrow> string \<Rightarrow> string \<Rightarrow> document \<Rightarrow> state \<Rightarrow> state \<times> (error + json)" where
  "beforeQuery sch rootModel field input s =
     (if isOperatorQuery (getField input field) then (s, Inr (JObj input))
      else processTree sch rootModel (inputTree input) [] s)"

section \<open>A concrete collection\<close>

text \<open>
  The \<^verbatim>\<open>books\<close> collection of the workspace
  (\<^verbatim>\<open>workspace/collections/vjoin/testdb/collection.books.json\<close>): the field \<^verbatim>\<open>name\<close> is
  required, \<^verbatim>\<open>authorId\<close> points into \<^verbatim>\<open>authors\<close>, revisions are stored in
  \<^verbatim>\<open>booksHistory\<close>.  The collaborators are the simplest ones: every query is valid, a
  document is valid when it has a \<^verbatim>\<open>name\<close> (an update always), nothing is composed, a key
  with a dot is a reference path.
\<close>

definition booksSettings :: settings where
  "booksSettings =
     \<lparr>settings_compose = None, storeRevisions = Some (JBool True),
      settings_revisionCollection = Some ''booksHistory'',
      beforeCreate = None, afterCreate = None, beforeUpdate = None, afterUpdate = None,
      beforeDelete = None, afterDelete = None\<rparr>"

definition plainReference :: referenceModel where
  "plainReference =
     \<lparr>ref_makeCaseInsensitive = (\<lambda>q. q), ref_validateQuery = (\<lambda>q. True),
      ref_compose = False, ref_composer_compose = (\<lambda>ds. ds)\<rparr>"

definition hasDot :: "string \<times> json \<Rightarrow> bool" where
  "hasDot kv = (CHR ''.'' \<in> set (fst kv))"

definition books :: model where
  "books =
     \<lparr>name = ''books'', settings = booksSettings,
      validateQuery = (\<lambda>q. True),
      validateSchema = (\<lambda>doc isUpdate. isUpdate \<or> getField doc ''name'' \<noteq> None),
      composer_compose = (\<lambda>ds. ds),
      createFromComposed = (\<lambda>doc. None),
      makeCaseInsensitive = (\<lambda>q. q),
      convertDateTimeForSave = (\<lambda>doc. doc),
      containsNestedReferenceFields = (\<lambda>q. list_ex hasDot q),
      processReferenceFieldQuery = (\<lambda>q. (filter (\<lambda>kv. \<not> hasDot kv) q, filter hasDot q)),
      getSchemaOrParent = (\<lambda>k. \<lparr>collection = ''authors'', multiple = False\<rparr>),
      regexTest = (\<lambda>pattern v. v = Some pattern),
      internalFieldsPrefix = ''_'',
      referenceModels = (\<lambda>c. plainReference),
      searcher = True\<rparr>"

text \<open>The same collection with revisions switched off.\<close>

definition booksWithoutRevisions :: model where
  "booksWithoutRevisions =
     books\<lparr>settings := booksSettings\<lparr>storeRevisions := Some (JBool False)\<rparr>\<rparr>"

text \<open>A datastore with one book at version 3 and one author.\<close>

definition book1984 :: document where
  "book1984 =
     [(''_id'', JStr ''b1''), (''name'', JStr ''1984''), (''authorId'', JStr ''a1''),
      (''_version'', JNum 3), (''_history'', JArr [])]"

definition orwell :: document where
  "orwell = [(''_id'', JStr ''a1''), (''name'', JStr ''Orwell'')]"

definition library :: "string \<Rightarrow> document list" where
  "library = (\<lambda>c. [])(''books'' := [book1984], ''authors'' := [orwell])"

text \<open>
  Three collections for the query rewriting of the reference field type: a book has an
  \<^verbatim>\<open>author\<close> in \<^verbatim>\<open>authors\<close>, an author a \<^verbatim>\<open>publisher\<close> in \<^verbatim>\<open>publishers\<close>.
\<close>

definition referenceTo :: "string \<Rightarrow> fieldSchema" where
  "referenceTo c = \<lparr>fieldType = Some ''Reference'', fieldCollection = Some c\<rparr>"

definition plainField :: fieldSchema where
  "plainField = \<lparr>fieldType = Some ''String'', fieldCollection = None\<rparr>"

definition librarySchemas :: schemas where
  "librarySchemas =
     \<lparr>getFieldOf = (\<lambda>model field.
         if model = ''books'' \<and> field = ''author'' then Some (referenceTo ''authors'')
         else if model = ''authors'' \<and> field = ''publisher'' then Some (referenceTo ''publishers'')
         else if field = ''name'' then Some plainField
         else None),
      getForeignModel = (\<lambda>c. Some c)\<rparr>"

definition bigLibrary :: "string \<Rightarrow> document list" where
  "bigLibrary =
     (\<lambda>c. [])(''books'' := [[(''_id'', JStr ''b1''), (''name'', JStr ''1984''),
                               (''author'', JStr ''a1'')]],
              ''authors'' := [[(''_id'', JStr ''a1''), (''name'', JStr ''Orwell''),
                                (''publisher'', JStr ''p1'')]],
              ''publishers'' := [[(''_id'', JStr ''p1''), (''name'', JStr ''Secker'')]])"

text \<open>The books with a composer that marks every document it is handed.\<close>

definition booksComposing :: model where
  "booksComposing = books\<lparr>composer_compose := map (setField ''composed'' (JBool True))\<rparr>"




text \<open>The books with a multi-valued reference to the authors.\<close>

definition booksMulti :: model where
  "booksMulti = books\<lparr>getSchemaOrParent := (\<lambda>k. \<lparr>collection = ''authors'', multiple = True\<rparr>)\<rparr>"

section \<open>Notions for the statements\<close>

text \<open>
  A call that writes to the datastore; a call that only reads; the callback.
\<close>

fun mutating :: "event \<Rightarrow> bool" where
  "mutating (DbInsert c ds) = True"
| "mutating (DbUpdate c q u) = True"
| "mutating (DbDelete c q) = True"
| "mutating e = False"

fun isLookup :: "event \<Rightarrow> bool" where
  "isLookup (DbFind c q) = True"
| "isLookup (ReferenceFind c q) = True"
| "isLookup e = False"

fun isDone :: "event \<Rightarrow> bool" where
  "isDone (Done r) = True"
| "isDone e = False"

text \<open>A state with further calls recorded and nothing else changed.\<close>

definition extends :: "state \<Rightarrow> event list \<Rightarrow> state" where
  "extends s evs = s\<lparr>trace := trace s @ evs\<rparr>"

text \<open>The override of \<^verbatim>\<open>find\<close>: \<^verbatim>\<open>self.compose = options.compose\<close>.\<close>

definition withCompose :: "document \<Rightarrow> state \<Rightarrow> state" where
  "withCompose options s =
     (case getField options ''compose'' of
        Some v \<Rightarrow> s\<lparr>compose := Some v\<rparr>
      | None \<Rightarrow> s)"

text \<open>The body of the validation loop of \<^verbatim>\<open>create\<close>, named for the proofs.\<close>

definition validateStep :: "model \<Rightarrow> document \<Rightarrow> bool option \<Rightarrow> bool option" where
  "validateStep m =
     (\<lambda>doc validation.
        if validation = None \<or> validation = Some True
        then Some (validateSchema m doc False) else validation)"


fun isHook :: "event \<Rightarrow> bool" where
  "isHook (HookApply t i v) = True"
| "isHook e = False"

text \<open>A call that reports a failure: an error for the callback, or an exception.\<close>

fun isFailure :: "event \<Rightarrow> bool" where
  "isFailure (Done (Inl e)) = True"
| "isFailure (Throw e) = True"
| "isFailure e = False"

fun isSuccess :: "event \<Rightarrow> bool" where
  "isSuccess (Done (Inr p)) = True"
| "isSuccess e = False"

fun isSearch :: "event \<Rightarrow> bool" where
  "isSearch (SearchIndex ds) = True"
| "isSearch (SearchDelete ds) = True"
| "isSearch e = False"

text \<open>
  The documents \<^verbatim>\<open>create\<close> hands to the datastore, and the documents it hands to its
  callback when the datastore, whose counter is at \<open>n\<close>, accepts them.
\<close>

definition initialised :: "model \<Rightarrow> document list \<Rightarrow> document \<Rightarrow> document list" where
  "initialised m documents internals =
     map (setField ''_version'' (JNum 1))
       (if history m
        then map (setField ''_history'' (JArr [])) (map (\<lambda>doc. assign doc internals) documents)
        else map (\<lambda>doc. assign doc internals) documents)"

definition created :: "model \<Rightarrow> nat \<Rightarrow> document list \<Rightarrow> document list" where
  "created m n documents =
     map (formatDocument ''_'' (internalFieldsPrefix m))
       (composer_compose m (fst (assignIds n documents)))"

text \<open>
  The calls of a run of \<^verbatim>\<open>create\<close> on the documents \<open>D\<close>: hooks, the search handler,
  failures, the insert of \<open>D\<close>, and a success with the documents made from \<open>D\<close>, which
  comes with the insert.
\<close>

definition createEvents :: "model \<Rightarrow> document list \<Rightarrow> nat \<Rightarrow> event list \<Rightarrow> bool" where
  "createEvents m D n evs =
     (list_all (\<lambda>e. e = DbInsert (name m) D \<or> isSearch e \<or> isHook e \<or> isFailure e
                   \<or> e = Done (Inr (Created (created m n D)))) evs
      \<and> (list_ex isSuccess evs \<longrightarrow> DbInsert (name m) D \<in> set evs))"





text \<open>
  The \<^verbatim>\<open>beforeUpdate\<close> stage of \<^verbatim>\<open>startUpdate\<close>: the pipeline if there is one.
\<close>

definition beforeUpdateHooks ::
  "model \<Rightarrow> document list \<Rightarrow> document \<Rightarrow> state \<Rightarrow> state \<times> (json + json)" where
  "beforeUpdateHooks m updatedDocs update s =
     (case beforeUpdate (settings m) of
        None \<Rightarrow> (s, Inr (JObj update))
      | Some hs \<Rightarrow> runHooks ''beforeUpdate'' 0 hs updatedDocs (JObj update) s)"



section \<open>Round trip of the result-set formatting\<close>

lemma map_of_setField: "map_of (setField k v d) = (map_of d)(k \<mapsto> v)"
  by (simp add: setField_def update_conv')

lemma formatDocument_fold:
  "formatDocument from to doc = fold (formatStep from to doc) (sort (map fst doc)) []"
  by (simp add: formatDocument_def formatStep_def)

lemma renameField_single: "renameField [a] to (a # rest) = to @ rest"
  by (simp add: renameField_def startsWith_def)

lemma map_of_formatStep:
  "map_of (formatStep [a] [b] doc (a # r) acc) p =
     (if p = b # r \<and> p \<noteq> ''__proto__'' \<and> (\<exists>v. map_of doc (a # r) = Some v \<and> v \<noteq> JNull)
      then map_of doc (a # r) else map_of acc p)"
  by (auto simp: formatStep_def getField_def renameField_single map_of_setField setProperty_def
           split: option.splits)

lemma fold_formatStep:
  assumes "\<forall>k\<in>set ks. \<exists>rest. k = a # rest"
  shows "map_of (fold (formatStep [a] [b] doc) ks acc) p =
     (case p of
        [] \<Rightarrow> map_of acc p
      | c # rest \<Rightarrow>
          if c = b \<and> b # rest \<noteq> ''__proto__'' \<and> a # rest \<in> set ks \<and> (\<exists>v. map_of doc (a # rest) = Some v \<and> v \<noteq> JNull)
          then map_of doc (a # rest) else map_of acc p)"
  using assms
proof (induction ks arbitrary: acc)
  case Nil
  then show ?case by (simp split: list.splits)
next
  case (Cons k ks)
  then obtain r where k: "k = a # r" by auto
  have IH: "map_of (fold (formatStep [a] [b] doc) ks acc') p =
     (case p of
        [] \<Rightarrow> map_of acc' p
      | c # rest \<Rightarrow>
          if c = b \<and> b # rest \<noteq> ''__proto__'' \<and> a # rest \<in> set ks \<and> (\<exists>v. map_of doc (a # rest) = Some v \<and> v \<noteq> JNull)
          then map_of doc (a # rest) else map_of acc' p)" for acc'
    using Cons by simp
  have "map_of (fold (formatStep [a] [b] doc) (k # ks) acc) p
      = map_of (fold (formatStep [a] [b] doc) ks (formatStep [a] [b] doc (a # r) acc)) p"
    by (simp add: k)
  also have "\<dots> =
     (case p of
        [] \<Rightarrow> map_of acc p
      | c # rest \<Rightarrow>
          if c = b \<and> b # rest \<noteq> ''__proto__'' \<and> a # rest \<in> set (k # ks) \<and> (\<exists>v. map_of doc (a # rest) = Some v \<and> v \<noteq> JNull)
          then map_of doc (a # rest) else map_of acc p)"
    unfolding IH by (cases p) (auto simp: map_of_formatStep k)
  finally show ?case .
qed

lemma formatDocument_single:
  assumes "\<forall>k\<in>fst ` set doc. \<exists>rest. k = a # rest"
  shows "map_of (formatDocument [a] [b] doc) p =
     (case p of
        [] \<Rightarrow> None
      | c # rest \<Rightarrow>
          if c = b \<and> b # rest \<noteq> ''__proto__''
             \<and> (\<exists>v. map_of doc (a # rest) = Some v \<and> v \<noteq> JNull)
          then map_of doc (a # rest) else None)"
proof -
  have ks: "\<forall>k\<in>set (sort (map fst doc)). \<exists>rest. k = a # rest"
    using assms by simp
  have mem: "k \<in> set (sort (map fst doc))" if "map_of doc k = Some v" for k v
  proof -
    from that have "(k, v) \<in> set doc" by (rule map_of_SomeD)
    then have "fst (k, v) \<in> fst ` set doc" by (rule imageI)
    then show ?thesis by simp
  qed
  show ?thesis
  proof (cases p)
    case Nil
    then show ?thesis
      unfolding formatDocument_fold fold_formatStep[OF ks] by simp
  next
    case (Cons c rest)
    have F: "map_of (formatDocument [a] [b] doc) (c # rest) =
        (if c = b \<and> b # rest \<noteq> ''__proto__'' \<and> a # rest \<in> set (sort (map fst doc))
              \<and> (\<exists>v. map_of doc (a # rest) = Some v \<and> v \<noteq> JNull)
         then map_of doc (a # rest) else None)"
      using fold_formatStep[OF ks, of b doc "[]" "c # rest"]
      by (simp only: formatDocument_fold list.case map_of.simps)
    show ?thesis
    proof (cases "\<exists>v. map_of doc (a # rest) = Some v \<and> v \<noteq> JNull")
      case True
      then have "a # rest \<in> set (sort (map fst doc))" using mem by blast
      with True show ?thesis unfolding Cons F by simp
    next
      case False
      then show ?thesis unfolding Cons F by simp blast
    qed
  qed
qed

lemma formatDocument_keys:
  assumes "\<forall>k\<in>fst ` set doc. \<exists>rest. k = a # rest"
    and "k \<in> fst ` set (formatDocument [a] [b] doc)"
  shows "\<exists>rest. k = b # rest"
proof -
  from assms(2) have "map_of (formatDocument [a] [b] doc) k \<noteq> None"
    by (simp add: map_of_eq_None_iff)
  with formatDocument_single[OF assms(1), of b k] show ?thesis
    by (cases k) (auto split: if_splits)
qed

lemma map_of_filter_notin: "k \<notin> fst ` set doc \<Longrightarrow> map_of (filter P doc) k = None"
  by (induction doc) auto

lemma map_of_stripNulls:
  "distinct (map fst doc) \<Longrightarrow>
   map_of (stripNulls doc) k =
     (case map_of doc k of Some v \<Rightarrow> if v \<noteq> JNull then Some v else None | None \<Rightarrow> None)"
  unfolding stripNulls_def
proof (induction doc)
  case Nil
  then show ?case by simp
next
  case (Cons kv doc)
  obtain k' v' where kv: "kv = (k', v')" by (cases kv)
  from Cons.prems have notin: "k' \<notin> fst ` set doc" and d: "distinct (map fst doc)"
    by (auto simp: kv)
  show ?case
  proof (cases "k = k'")
    case True
    then show ?thesis using map_of_filter_notin[OF notin] by (simp add: kv)
  next
    case False
    then show ?thesis using Cons.IH[OF d] by (simp add: kv)
  qed
qed

lemma roundtrip_document:
  assumes wf: "distinct (map fst doc)"
    and pfx: "\<forall>k\<in>fst ` set doc. \<exists>rest. k = a # rest"
    and np: "\<forall>k\<in>fst ` set doc. drop 1 k \<noteq> ''_proto__''"
  shows "sameObject (formatDocument ''_'' [a] (formatDocument [a] ''_'' doc)) (stripNulls doc)"
proof -
  let ?y = "formatDocument [a] ''_'' doc"
  have ykeys: "\<forall>k\<in>fst ` set ?y. \<exists>rest. k = CHR ''_'' # rest"
    using formatDocument_keys[OF pfx] by blast
  have "map_of (formatDocument ''_'' [a] ?y) p = map_of (stripNulls doc) p" for p
  proof (cases p)
    case Nil
    have "[] \<notin> fst ` set doc" using pfx by auto
    then have "map_of doc [] = None" by (simp add: map_of_eq_None_iff)
    then show ?thesis
      by (simp add: formatDocument_single[OF ykeys] map_of_stripNulls[OF wf] Nil)
  next
    case (Cons c rest)
    show ?thesis
    proof (cases "map_of doc (c # rest)")
      case None
      have "map_of (formatDocument ''_'' [a] ?y) (c # rest) = None"
      proof (cases "c = a")
        case True
        have "map_of ?y (CHR ''_'' # rest) = None"
          using None True by (simp add: formatDocument_single[OF pfx])
        then show ?thesis by (simp add: formatDocument_single[OF ykeys])
      next
        case False
        then show ?thesis by (simp add: formatDocument_single[OF ykeys])
      qed
      then show ?thesis unfolding Cons using None by (simp add: map_of_stripNulls[OF wf])
    next
      case (Some v)
      then have "(c # rest, v) \<in> set doc" by (rule map_of_SomeD)
      then have mem: "fst (c # rest, v) \<in> fst ` set doc" by (rule imageI)
      from mem pfx have c: "c = a" by auto
      from np mem have "drop 1 (fst (c # rest, v)) \<noteq> ''_proto__''" by blast
      then have r: "rest \<noteq> ''_proto__''" by simp
      have r1: "CHR ''_'' # rest \<noteq> ''__proto__''" using r by simp
      have r2: "a # rest \<noteq> ''__proto__''" using r by auto
      have inner: "map_of ?y (CHR ''_'' # rest) = (if v \<noteq> JNull then Some v else None)"
        using Some c r1 by (simp add: formatDocument_single[OF pfx])
      have outer: "map_of (formatDocument ''_'' [a] ?y) (a # rest)
                     = (if v \<noteq> JNull then Some v else None)"
        using r2 by (simp add: formatDocument_single[OF ykeys] inner)
      show ?thesis unfolding Cons c outer using Some c by (simp add: map_of_stripNulls[OF wf])
    qed
  qed
  then show ?thesis by (auto simp: sameObject_def)
qed

lemma startsWith_single: "startsWith k [a] \<longleftrightarrow> (\<exists>rest. k = a # rest)"
  by (cases k) (auto simp: startsWith_def)

text \<open>
  Claim C9.  For a document (or an array of documents) whose fields all start with the
  configured internal-field prefix, \<^verbatim>\<open>formatResultSetForOutput(formatResultSetForInput(x))\<close>
  is \<open>x\<close> with its null-valued fields removed, when the prefix is one character
  (\<^verbatim>\<open>field.slice(1)\<close> drops one character, whatever the prefix) and no field is renamed to
  \<^verbatim>\<open>__proto__\<close> (no field is the prefix followed by \<^verbatim>\<open>_proto__\<close>).
\<close>

theorem formatResultSet_roundtrip:
  assumes "length pfx = 1"
    and "\<forall>d\<in>set (documentsOf x).
           wellFormed d
           \<and> (\<forall>k\<in>fst ` set d. startsWith k pfx \<and> renameField pfx ''_'' k \<noteq> ''__proto__'')"
  shows "sameResultSet
           (formatResultSetForOutput pfx
              (formatResultSetForInput pfx x))
           (mapResultSet stripNulls x)"
proof -
  from assms(1) obtain a where a: "pfx = [a]"
    by (cases pfx) auto
  have doc: "sameObject (formatDocument ''_'' [a] (formatDocument [a] ''_'' d)) (stripNulls d)"
    if "d \<in> set (documentsOf x)" for d
  proof -
    from that assms(2) have wf: "distinct (map fst d)"
      and st: "\<forall>k\<in>fst ` set d. \<exists>rest. k = a # rest"
      and rn: "\<forall>k\<in>fst ` set d. renameField [a] ''_'' k \<noteq> ''__proto__''"
      by (auto simp: wellFormed_def a startsWith_single)
    have np: "\<forall>k\<in>fst ` set d. drop 1 k \<noteq> ''_proto__''"
    proof
      fix k assume k: "k \<in> fst ` set d"
      with st obtain rest where kr: "k = a # rest" by blast
      from rn k have "renameField [a] ''_'' k \<noteq> ''__proto__''" by blast
      then show "drop 1 k \<noteq> ''_proto__''" unfolding kr renameField_single by simp
    qed
    from wf st np show ?thesis by (rule roundtrip_document)
  qed
  show ?thesis
  proof (cases x)
    case (Single d)
    then show ?thesis using doc[of d]
      by (simp add: formatResultSetForOutput_def formatResultSetForInput_def formatResultSet_def a)
  next
    case (Multiple ds)
    then have "list_all2 sameObject
        (map (formatDocument ''_'' [a]) (map (formatDocument [a] ''_'') ds)) (map stripNulls ds)"
      using doc by (simp add: list_all2_map1 list_all2_map2 list_all2_same)
    then show ?thesis using Multiple
      by (simp add: formatResultSetForOutput_def formatResultSetForInput_def formatResultSet_def a)
  qed
qed

theorem formatResultSet_roundtrip_witness:
  "length ''$'' = 1
   \<and> list_all (\<lambda>d. wellFormed d
                   \<and> list_all (\<lambda>k. startsWith k ''$'' \<and> renameField ''$'' ''_'' k \<noteq> ''__proto__'')
                        (map fst d))
        (documentsOf (Single [(''$id'', JStr ''x1''), (''$gone'', JNull), (''$version'', JNum 3)]))
   \<and> sameResultSet
        (formatResultSetForOutput ''$''
           (formatResultSetForInput ''$''
              (Single [(''$id'', JStr ''x1''), (''$gone'', JNull), (''$version'', JNum 3)])))
        (Single [(''$id'', JStr ''x1''), (''$version'', JNum 3)])"
  using formatResultSet_roundtrip
          [of "''$''" "Single [(''$id'', JStr ''x1''), (''$gone'', JNull), (''$version'', JNum 3)]"]
  by (simp add: wellFormed_def startsWith_def stripNulls_def renameField_def)

text \<open>
  The spec has the round trip for every configured prefix.  With a prefix of two
  characters the renaming drops one character and puts the whole prefix back: the field
  \<open>__id\<close> comes back as \<open>___id\<close>.
\<close>

lemma formatResultSet_two_character_prefix:
  "formatResultSetForOutput ''__''
     (formatResultSetForInput ''__'' (Single [(''__id'', JStr ''x1'')]))
   = Single [(''___id'', JStr ''x1'')]"
  by code_simp

theorem formatResultSet_roundtrip_counterexample:
  "list_all (\<lambda>k. startsWith k ''__'') (map fst [(''__id'', JStr ''x1'')])
   \<and> formatResultSetForOutput ''__''
        (formatResultSetForInput ''__'' (Single [(''__id'', JStr ''x1'')]))
       = Single [(''___id'', JStr ''x1'')]
   \<and> \<not> sameResultSet
          (formatResultSetForOutput ''__''
             (formatResultSetForInput ''__'' (Single [(''__id'', JStr ''x1'')])))
          (mapResultSet stripNulls (Single [(''__id'', JStr ''x1'')]))"
proof -
  have "\<not> sameObject [(''___id'', JStr ''x1'')] (stripNulls [(''__id'', JStr ''x1'')])"
  proof
    assume "sameObject [(''___id'', JStr ''x1'')] (stripNulls [(''__id'', JStr ''x1'')])"
    then have "map_of [(''___id'', JStr ''x1'')] ''__id''
                 = map_of (stripNulls [(''__id'', JStr ''x1'')]) ''__id''"
      by (simp add: sameObject_def)
    then show False by (simp add: stripNulls_def)
  qed
  then show ?thesis
    unfolding formatResultSet_two_character_prefix by (simp add: startsWith_def)
qed

text \<open>
  With the empty prefix every field starts with the prefix and loses its first character;
  with a one-character prefix a field that is renamed to \<^verbatim>\<open>__proto__\<close> is lost.
\<close>

lemma formatResultSet_empty_prefix:
  "formatResultSetForOutput []
     (formatResultSetForInput [] (Single [(''name'', JStr ''x1'')]))
   = Single [(''ame'', JStr ''x1'')]"
  by code_simp

lemma formatResultSet_proto_field:
  "formatResultSetForOutput ''$''
     (formatResultSetForInput ''$'' (Single [(''$_proto__'', JStr ''x''), (''$id'', JStr ''x1'')]))
   = Single [(''$id'', JStr ''x1'')]"
  by code_simp

section \<open>What a find leaves behind\<close>

lemma extends_Nil [simp]: "extends s [] = s"
  by (simp add: extends_def)

lemma extends_extends [simp]: "extends (extends s a) b = extends s (a @ b)"
  by (simp add: extends_def)

lemma emit_extends: "emit e s = extends s [e]"
  by (simp add: emit_def extends_def)

lemma done_cb_extends: "done_cb r s = extends s [Done r]"
  by (simp add: done_cb_def emit_extends)

lemma extends_fields [simp]:
  "colls (extends s evs) = colls s" "nextId (extends s evs) = nextId s"
  "db (extends s evs) = db s" "failing (extends s evs) = failing s"
  "compose (extends s evs) = compose s" "trace (extends s evs) = trace s @ evs"
  by (simp_all add: extends_def)

lemma rejection_extends [simp]: "rejection (extends s evs) c = rejection s c"
  by (simp add: rejection_def)

lemma datastore_find_extends:
  "fst (datastore_find c q s) = extends s [DbFind c q]"
  by (simp add: datastore_find_def emit_extends Let_def split: option.splits)

lemma datastore_find_result:
  "snd (datastore_find c q s) =
     (case rejection s c of Some e \<Rightarrow> Inl e
      | None \<Rightarrow> Inr (filter (matches q) (colls s c), length (filter (matches q) (colls s c))))"
  by (simp add: datastore_find_def Let_def split: option.splits)

lemma referenceFind_extends:
  "\<exists>evs. fst (referenceFind m c q s) = extends s (ReferenceFind c q # evs) \<and> list_all isLookup evs"
proof -
  obtain s2 r where d: "datastore_find c (ref_makeCaseInsensitive (referenceModels m c) q)
       (extends s [ReferenceFind c q]) = (s2, r)" by (cases "datastore_find c (ref_makeCaseInsensitive (referenceModels m c) q)
       (extends s [ReferenceFind c q])")
  have s2: "s2 = extends s [ReferenceFind c q, DbFind c (ref_makeCaseInsensitive (referenceModels m c) q)]"
    using datastore_find_extends[of c "ref_makeCaseInsensitive (referenceModels m c) q" "extends s [ReferenceFind c q]"] d
    by simp
  show ?thesis
    unfolding referenceFind_def Let_def emit_extends
    by (auto simp: d s2 split: sum.splits prod.splits intro: exI[of _ "[]"])
qed


lemma referenceFind_lookup:
  "\<exists>evs. fst (referenceFind m c q s) = extends s evs \<and> list_all isLookup evs"
proof -
  from referenceFind_extends[of m c q s] obtain evs
    where "fst (referenceFind m c q s) = extends s (ReferenceFind c q # evs)" "list_all isLookup evs"
    by auto
  then show ?thesis by (intro exI[of _ "ReferenceFind c q # evs"]) simp
qed

lemma resolveReference_state:
  "fst (resolveReference m kv q s) =
     fst (referenceFind m (referenceCollectionOf m (fst kv))
            (collectionQueryOf (fst kv) (snd kv) q) s)"
  unfolding resolveReference_def
  by (simp split: prod.splits sum.splits)

lemma resolveReference_lookup:
  "\<exists>evs. fst (resolveReference m kv q s) = extends s evs \<and> list_all isLookup evs"
  unfolding resolveReference_state by (rule referenceFind_lookup)

lemma resolveReferences_lookup:
  "\<exists>evs. fst (resolveReferences m kvs q s) = extends s evs \<and> list_all isLookup evs"
proof (induction kvs arbitrary: q s)
  case Nil
  show ?case by (auto intro: exI[of _ "[]"])
next
  case (Cons kv kvs)
  obtain s1 r where rr: "resolveReference m kv q s = (s1, r)" by (cases "resolveReference m kv q s")
  from resolveReference_lookup[of m kv q s] rr obtain evs1
    where s1: "s1 = extends s evs1" and l1: "list_all isLookup evs1" by auto
  show ?case
  proof (cases r)
    case (Inl e)
    then show ?thesis using rr s1 l1 by auto
  next
    case (Inr q')
    from Cons.IH[of q' s1] obtain evs2
      where "fst (resolveReferences m kvs q' s1) = extends s1 evs2" and "list_all isLookup evs2"
      by auto
    then show ?thesis using rr Inr s1 l1
      by (auto intro!: exI[of _ "evs1 @ evs2"])
  qed
qed

lemma runFind_extends: "fst (runFind m q s) = extends s [DbFind (name m) q]"
proof -
  obtain s1 r where d: "datastore_find (name m) q s = (s1, r)" by (cases "datastore_find (name m) q s")
  then have "s1 = extends s [DbFind (name m) q]" using datastore_find_extends[of "name m" q s] by simp
  then show ?thesis unfolding runFind_def by (auto simp: d split: sum.splits prod.splits)
qed

lemma find_op_lookup:
  "\<exists>evs. fst (find_op m q options s) = extends (withCompose options s) evs \<and> list_all isLookup evs"
proof -
  let ?q = "makeCaseInsensitive m q"
  let ?s1 = "withCompose options s"
  have s1: "(case getField options ''compose'' of Some v \<Rightarrow> s\<lparr>compose := Some v\<rparr> | None \<Rightarrow> s) = ?s1"
    by (simp add: withCompose_def)
  obtain q0 rq where p: "processReferenceFieldQuery m ?q = (q0, rq)"
    by (cases "processReferenceFieldQuery m ?q")
  obtain s2 r where rr: "resolveReferences m rq q0 ?s1 = (s2, r)"
    by (cases "resolveReferences m rq q0 ?s1")
  from resolveReferences_lookup[of m rq q0 ?s1] rr obtain evs
    where s2: "s2 = extends ?s1 evs" and l: "list_all isLookup evs" by auto
  have nested: "\<exists>evs. fst (case r of Inl e \<Rightarrow> (s2, Inl e) | Inr q' \<Rightarrow> runFind m q' s2) = extends ?s1 evs
       \<and> list_all isLookup evs"
  proof (cases r)
    case (Inl e)
    then show ?thesis using s2 l by auto
  next
    case (Inr q')
    then show ?thesis using s2 l runFind_extends[of m q' s2]
      by (auto intro!: exI[of _ "evs @ [DbFind (name m) q']"])
  qed
  have plain: "\<exists>evs. fst (runFind m ?q ?s1) = extends ?s1 evs \<and> list_all isLookup evs"
    using runFind_extends[of m ?q ?s1] by (auto intro!: exI[of _ "[DbFind (name m) ?q]"])
  show ?thesis
    unfolding find_op_def Let_def s1
    using nested plain
    by (auto simp: p rr split: sum.splits intro: exI[of _ "[]"])
qed

lemma pair_of_snd: "snd p = y \<Longrightarrow> p = (fst p, y)"
  by (cases p) simp

section \<open>The calls of create\<close>

lemma getField_setField:
  "getField (setField k v d) k' = (if k' = k then Some v else getField d k')"
  by (simp add: getField_def map_of_setField)

lemma fst_assignIds_Cons:
  "fst (assignIds n (d # ds)) =
     (case getField d ''_id'' of
        Some i \<Rightarrow> d # fst (assignIds n ds)
      | None \<Rightarrow> setField ''_id'' (JStr (objectId n)) d # fst (assignIds (Suc n) ds))"
  by (simp add: case_prod_beta split: option.splits)

lemma assignIds_length: "length (fst (assignIds n ds)) = length ds"
proof (induction ds arbitrary: n)
  case Nil
  show ?case by simp
next
  case (Cons d ds)
  show ?case unfolding fst_assignIds_Cons by (simp add: Cons.IH split: option.splits)
qed

lemma assignIds_fields:
  "i < length ds \<Longrightarrow> k \<noteq> ''_id'' \<Longrightarrow>
   getField (fst (assignIds n ds) ! i) k = getField (ds ! i) k"
proof (induction ds arbitrary: n i)
  case Nil
  then show ?case by simp
next
  case (Cons d ds)
  show ?case
  proof (cases i)
    case 0
    then show ?thesis unfolding fst_assignIds_Cons using Cons.prems(2)
      by (simp add: getField_setField split: option.splits)
  next
    case (Suc j)
    then have j: "j < length ds" using Cons.prems(1) by simp
    show ?thesis unfolding fst_assignIds_Cons using Cons.IH[OF j Cons.prems(2)] Suc
      by (simp split: option.splits)
  qed
qed

lemma createEvents_prefix:
  assumes "createEvents m D n evs" and "list_all (\<lambda>e. isHook e \<or> isFailure e) pre"
  shows "createEvents m D n (pre @ evs)"
proof -
  have a: "list_all (\<lambda>e. e = DbInsert (name m) D \<or> isSearch e \<or> isHook e \<or> isFailure e
                   \<or> e = Done (Inr (Created (created m n D)))) pre"
    using assms(2) by (auto simp: list_all_iff)
  have b: "\<not> list_ex isSuccess pre"
  proof
    assume "list_ex isSuccess pre"
    then obtain e where "e \<in> set pre" "isSuccess e" by (auto simp: list_ex_iff)
    moreover from this assms(2) have "isHook e \<or> isFailure e" by (auto simp: list_all_iff)
    ultimately show False by (cases e rule: isSuccess.cases) auto
  qed
  show ?thesis using assms(1) a b by (auto simp: createEvents_def list_ex_iff)
qed

lemma createEvents_failures:
  "list_all (\<lambda>e. isHook e \<or> isFailure e) evs \<Longrightarrow> createEvents m D n evs"
proof -
  assume a: "list_all (\<lambda>e. isHook e \<or> isFailure e) evs"
  have "createEvents m D n []" by (simp add: createEvents_def)
  from createEvents_prefix[OF this a] show ?thesis by simp
qed


lemma runHooks_extends:
  "\<exists>evs. fst (runHooks t i hs docs v s) = extends s evs \<and> list_all isHook evs"
proof (induction hs arbitrary: i v s)
  case Nil
  show ?case by (auto intro: exI[of _ "[]"])
next
  case (Cons h hs)
  let ?s1 = "extends s [HookApply t i v]"
  show ?case
  proof (cases "h v docs")
    case (Rejects err)
    then show ?thesis
      by (auto simp: Let_def emit_extends intro!: exI[of _ "[HookApply t i v]"])
  next
    case (Resolves w)
    show ?thesis
    proof (cases "w = JNull")
      case True
      then show ?thesis using Resolves
        by (auto simp: Let_def emit_extends intro!: exI[of _ "[HookApply t i v]"])
    next
      case False
      from Cons.IH[of "Suc i" w ?s1] obtain evs
        where "fst (runHooks t (Suc i) hs docs w ?s1) = extends ?s1 evs" "list_all isHook evs"
        by auto
      then show ?thesis using Resolves False
        by (auto simp: Let_def emit_extends intro!: exI[of _ "HookApply t i v # evs"])
    qed
  qed
qed

lemma hookChains_extends:
  "\<exists>evs. fst (hookChains hs docs s) = extends s evs \<and> list_all isHook evs"
proof (induction docs arbitrary: s)
  case Nil
  show ?case by (auto intro: exI[of _ "[]"])
next
  case (Cons d ds)
  obtain s1 r where r: "runHooks ''beforeCreate'' 0 hs [] (JObj d) s = (s1, r)"
    by (cases "runHooks ''beforeCreate'' 0 hs [] (JObj d) s")
  from runHooks_extends[of "''beforeCreate''" 0 hs "[]" "JObj d" s] r obtain evs1
    where s1: "s1 = extends s evs1" and l1: "list_all isHook evs1" by auto
  obtain s2 rs where c: "hookChains hs ds s1 = (s2, rs)" by (cases "hookChains hs ds s1")
  from Cons.IH[of s1] c obtain evs2
    where s2: "s2 = extends s1 evs2" and l2: "list_all isHook evs2" by auto
  show ?case using r c s1 s2 l1 l2 by (auto intro!: exI[of _ "evs1 @ evs2"])
qed

lemma applyEach_extends:
  "\<exists>evs. applyEach t i hs v s = extends s evs \<and> list_all isHook evs"
proof (induction hs arbitrary: i s)
  case Nil
  show ?case by (auto intro: exI[of _ "[]"])
next
  case (Cons h hs)
  from Cons.IH[of "Suc i" "extends s [HookApply t i v]"] obtain evs
    where "applyEach t (Suc i) hs v (extends s [HookApply t i v])
             = extends (extends s [HookApply t i v]) evs" "list_all isHook evs"
    by auto
  then show ?case by (auto simp: emit_extends intro!: exI[of _ "HookApply t i v # evs"])
qed

lemma afterHooks_extends:
  "\<exists>evs. afterHooks t hs v s = extends s evs \<and> list_all isHook evs"
proof (cases hs)
  case None
  then show ?thesis by (auto simp: afterHooks_def intro: exI[of _ "[]"])
next
  case (Some l)
  then show ?thesis using applyEach_extends[of t 0 l v s] by (simp add: afterHooks_def)
qed

lemma fold_afterHooks_extends:
  "\<exists>evs. fold (\<lambda>doc. afterHooks t hs (JObj doc)) ds s = extends s evs \<and> list_all isHook evs"
proof (induction ds arbitrary: s)
  case Nil
  show ?case by (auto intro: exI[of _ "[]"])
next
  case (Cons d ds)
  from afterHooks_extends[of t hs "JObj d" s] obtain evs1
    where a: "afterHooks t hs (JObj d) s = extends s evs1" and l1: "list_all isHook evs1" by auto
  from Cons.IH[of "extends s evs1"] obtain evs2
    where b: "fold (\<lambda>doc. afterHooks t hs (JObj doc)) ds (extends s evs1)
                = extends (extends s evs1) evs2" and l2: "list_all isHook evs2" by auto
  show ?case using a b l1 l2 by (auto intro!: exI[of _ "evs1 @ evs2"])
qed


lemma datastore_insert_rejected:
  "rejection s c = Some e \<Longrightarrow> datastore_insert c data s = (extends s [DbInsert c data], Inl e)"
  by (simp add: datastore_insert_def emit_extends Let_def)

lemma datastore_insert_ok:
  "rejection s c = None \<Longrightarrow>
   datastore_insert c data s =
     ((extends s [DbInsert c data])
        \<lparr>colls := (colls s)(c := colls s c @ fst (assignIds (nextId s) data)),
         nextId := snd (assignIds (nextId s) data)\<rparr>,
      Inr (fst (assignIds (nextId s) data)))"
  by (simp add: datastore_insert_def emit_extends Let_def case_prod_beta)

lemma formatted_output:
  "documentsOf (formatResultSetForOutput pfx (Multiple ds)) = map (formatDocument ''_'' pfx) ds"
  by (simp add: formatResultSetForOutput_def formatResultSet_def)

lemma saveDocuments_events:
  "\<exists>evs. trace (saveDocuments m D s) = trace s @ evs \<and> createEvents m D (nextId s) evs"
proof (cases "rejection s (name m)")
  case (Some e)
  have "trace (saveDocuments m D s)
          = trace s @ [DbInsert (name m) D, Done (Inl (connectionErrorOr e))]"
    by (simp add: saveDocuments_def datastore_insert_rejected[OF Some] done_cb_extends)
  moreover have "createEvents m D (nextId s) [DbInsert (name m) D, Done (Inl (connectionErrorOr e))]"
    by (simp add: createEvents_def)
  ultimately show ?thesis by blast
next
  case None
  let ?results = "fst (assignIds (nextId s) D)"
  let ?composed = "composer_compose m ?results"
  let ?s1 = "(extends s [DbInsert (name m) D])
        \<lparr>colls := (colls s)(name m := colls s (name m) @ ?results),
         nextId := snd (assignIds (nextId s) D)\<rparr>"
  let ?s2 = "extends ?s1 [SearchIndex ?composed]"
  from fold_afterHooks_extends[of "''afterCreate''" "afterCreate (settings m)" ?composed ?s2]
  obtain hooks where h: "fold (\<lambda>doc. afterHooks ''afterCreate'' (afterCreate (settings m)) (JObj doc))
        ?composed ?s2 = extends ?s2 hooks" and lh: "list_all isHook hooks" by auto
  have "trace (saveDocuments m D s)
          = trace s @ ([DbInsert (name m) D, SearchIndex ?composed] @ hooks
                @ [Done (Inr (Created (created m (nextId s) D)))])"
    by (simp add: saveDocuments_def datastore_insert_ok[OF None] Let_def emit_extends h
          done_cb_extends formatted_output created_def)
  moreover have "createEvents m D (nextId s)
       ([DbInsert (name m) D, SearchIndex ?composed] @ hooks
                @ [Done (Inr (Created (created m (nextId s) D)))])"
    using lh by (auto simp: createEvents_def list_all_iff)
  ultimately show ?thesis by blast
qed

lemma startInsert_events:
  "\<exists>evs. trace (startInsert m D k s) = trace s @ evs \<and> createEvents m D (nextId s) evs"
proof (cases "beforeCreate (settings m)")
  case None
  then show ?thesis using saveDocuments_events[of m D s] by (simp add: startInsert_def)
next
  case (Some hs)
  obtain s1 rs where c: "hookChains hs D s = (s1, rs)" by (cases "hookChains hs D s")
  from hookChains_extends[of hs D s] c obtain pre
    where s1: "s1 = extends s pre" and lp: "list_all isHook pre" by auto
  show ?thesis
  proof (cases "rs ! (min k (length rs - 1))")
    case (Inl err)
    have "trace (startInsert m D k s) = trace s @ (pre @ [Done (Inl (CreateHookError err))])"
      using Inl by (simp add: startInsert_def Some c s1 done_cb_extends)
    moreover have "createEvents m D (nextId s) (pre @ [Done (Inl (CreateHookError err))])"
      by (rule createEvents_failures) (use lp in \<open>auto simp: list_all_iff\<close>)
    ultimately show ?thesis by blast
  next
    case (Inr result)
    from saveDocuments_events[of m D s1] obtain evs
      where t: "trace (saveDocuments m D s1) = trace s1 @ evs"
        and ce: "createEvents m D (nextId s1) evs" by auto
    have "trace (startInsert m D k s) = trace s @ (pre @ evs)"
      using Inr t by (simp add: startInsert_def Some c s1)
    moreover have "createEvents m D (nextId s) (pre @ evs)"
      by (rule createEvents_prefix) (use ce s1 lp in \<open>auto simp: list_all_iff\<close>)
    ultimately show ?thesis by blast
  qed
qed

lemma createFromComposedEach_events:
  "\<exists>evs. trace (createFromComposedEach m D k rest s) = trace s @ evs
         \<and> createEvents m D (nextId s) evs"
proof (induction rest arbitrary: s)
  case Nil
  have "createEvents m D (nextId s) []" by (simp add: createEvents_def)
  then show ?case by (auto intro: exI[of _ "[]"])
next
  case (Cons d rest)
  show ?case
  proof (cases "createFromComposed m d")
    case (Some e)
    let ?s1 = "extends s [Done (Inl (ComposedError e))]"
    from Cons.IH[of ?s1] obtain evs
      where t: "trace (createFromComposedEach m D k rest ?s1) = trace ?s1 @ evs"
        and ce: "createEvents m D (nextId ?s1) evs" by auto
    have "trace (createFromComposedEach m D k (d # rest) s)
            = trace s @ ([Done (Inl (ComposedError e))] @ evs)"
      by (simp add: Some done_cb_extends t)
    moreover have "createEvents m D (nextId s) ([Done (Inl (ComposedError e))] @ evs)"
      by (rule createEvents_prefix) (use ce in simp_all)
    ultimately show ?thesis by blast
  next
    case None
    show ?thesis
    proof (cases "rest = []")
      case True
      then show ?thesis using startInsert_events[of m D k s] None by simp
    next
      case False
      then show ?thesis using Cons.IH[of s] None by simp
    qed
  qed
qed

lemma create_op_events:
  "\<exists>evs. trace (create_op m documents internals k s) = trace s @ evs
         \<and> createEvents m (initialised m documents internals) (nextId s) evs"
proof -
  let ?D = "initialised m documents internals"
  have fail: "\<exists>evs. trace (extends s [e]) = trace s @ evs \<and> createEvents m ?D (nextId s) evs"
    if "isFailure e" for e
  proof -
    have "createEvents m ?D (nextId s) [e]"
      by (rule createEvents_failures) (use that in simp)
    then show ?thesis by (intro exI[of _ "[e]"]) simp
  qed
  show ?thesis
  proof (cases "db s")
    case False
    then show ?thesis using fail[of "Done (Inl createConnectionError)"]
      by (simp add: create_op_def done_cb_extends)
  next
    case True
    show ?thesis
    proof (cases "validateEach m documents")
      case None
      then show ?thesis using True fail[of "Throw (TypeError ''validation is undefined'')"]
        by (simp add: create_op_def emit_extends)
    next
      case (Some ok)
      show ?thesis
      proof (cases ok)
        case False
        then show ?thesis
          using True Some fail[of "Done (Inl (createValidationError (Some ''Validation Failed'')))"]
          by (simp add: create_op_def done_cb_extends)
      next
        case ok: True
        have "create_op m documents internals k s = createFromComposedEach m ?D k ?D s"
          using True Some ok by (simp add: create_op_def initialised_def Let_def)
        then show ?thesis using createFromComposedEach_events[of m ?D k ?D s] by simp
      qed
    qed
  qed
qed

lemma getField_assign_Nil: "assign d [] = d"
  by (simp add: assign_def)

lemma initialised_length: "length (initialised m documents internals) = length documents"
  by (simp add: initialised_def)

lemma initialised_version:
  "i < length documents \<Longrightarrow>
   getField (initialised m documents internals ! i) ''_version'' = Some (JNum 1)"
  by (simp add: initialised_def getField_setField)

lemma initialised_history:
  "i < length documents \<Longrightarrow>
   getField (initialised m documents internals ! i) ''_history'' =
     (if history m then Some (JArr [])
      else getField (assign (documents ! i) internals) ''_history'')"
  by (simp add: initialised_def getField_setField)

lemma renameField_same: "renameField ''_'' ''_'' f = f"
  by (cases f) (auto simp: renameField_def startsWith_def)

lemma map_of_formatStep_same:
  "map_of (formatStep ''_'' ''_'' doc k acc) p =
     (if p = k \<and> p \<noteq> ''__proto__'' \<and> (\<exists>v. map_of doc k = Some v \<and> v \<noteq> JNull)
      then map_of doc k else map_of acc p)"
  by (auto simp: formatStep_def getField_def renameField_same map_of_setField setProperty_def
           split: option.splits)

lemma fold_formatStep_same:
  "map_of (fold (formatStep ''_'' ''_'' doc) ks acc) p =
     (if p \<in> set ks \<and> p \<noteq> ''__proto__'' \<and> (\<exists>v. map_of doc p = Some v \<and> v \<noteq> JNull)
      then map_of doc p else map_of acc p)"
proof (induction ks arbitrary: acc)
  case Nil
  show ?case by simp
next
  case (Cons k ks)
  have "map_of (fold (formatStep ''_'' ''_'' doc) (k # ks) acc) p
      = map_of (fold (formatStep ''_'' ''_'' doc) ks (formatStep ''_'' ''_'' doc k acc)) p"
    by simp
  also have "\<dots> = (if p \<in> set ks \<and> p \<noteq> ''__proto__'' \<and> (\<exists>v. map_of doc p = Some v \<and> v \<noteq> JNull)
      then map_of doc p else map_of (formatStep ''_'' ''_'' doc k acc) p)"
    by (rule Cons.IH)
  also have "\<dots> = (if p \<in> set (k # ks) \<and> p \<noteq> ''__proto__''
                        \<and> (\<exists>v. map_of doc p = Some v \<and> v \<noteq> JNull)
      then map_of doc p else map_of acc p)"
    unfolding map_of_formatStep_same by auto
  finally show ?case .
qed

lemma getField_formatDocument_same:
  "getField doc k = Some v \<Longrightarrow> v \<noteq> JNull \<Longrightarrow> k \<noteq> ''__proto__'' \<Longrightarrow>
   getField (formatDocument ''_'' ''_'' doc) k = Some v"
proof -
  assume a: "getField doc k = Some v" and b: "v \<noteq> JNull" and c: "k \<noteq> ''__proto__''"
  from a have "(k, v) \<in> set doc" unfolding getField_def by (rule map_of_SomeD)
  then have "fst (k, v) \<in> fst ` set doc" by (rule imageI)
  then have "k \<in> set (sort (map fst doc))" by simp
  then show ?thesis
    unfolding getField_def formatDocument_fold fold_formatStep_same
    using a b c by (simp add: getField_def)
qed

section \<open>A pipeline that meets null\<close>



lemma find_op_trace:
  "\<exists>evs. trace (fst (find_op m q options s)) = trace s @ evs \<and> list_all isLookup evs"
proof -
  from find_op_lookup[of m q options s] obtain evs
    where "fst (find_op m q options s) = extends (withCompose options s) evs"
      and "list_all isLookup evs" by auto
  moreover have "trace (withCompose options s) = trace s"
    by (simp add: withCompose_def split: option.splits)
  ultimately show ?thesis by (intro exI[of _ evs]) simp
qed










lemma datastore_delete_trace:
  "trace (fst (datastore_delete c q s)) = trace s @ [DbDelete c q]"
  by (simp add: datastore_delete_def Let_def emit_extends split: option.splits)















section \<open>Requests that match no document\<close>

lemma withCompose_fields [simp]:
  "colls (withCompose options s) = colls s" "nextId (withCompose options s) = nextId s"
  "db (withCompose options s) = db s" "failing (withCompose options s) = failing s"
  "trace (withCompose options s) = trace s"
  by (simp_all add: withCompose_def split: option.splits)

lemma find_op_store:
  "colls (fst (find_op m q options s)) = colls s"
  "failing (fst (find_op m q options s)) = failing s"
  "nextId (fst (find_op m q options s)) = nextId s"
  "db (fst (find_op m q options s)) = db s"
proof -
  from find_op_lookup[of m q options s] obtain evs
    where e: "fst (find_op m q options s) = extends (withCompose options s) evs" by auto
  show "colls (fst (find_op m q options s)) = colls s"
    "failing (fst (find_op m q options s)) = failing s"
    "nextId (fst (find_op m q options s)) = nextId s"
    "db (fst (find_op m q options s)) = db s"
    unfolding e by simp_all
qed

lemma runHooks_store:
  "colls (fst (runHooks t i hs docs v s)) = colls s"
  "failing (fst (runHooks t i hs docs v s)) = failing s"
  "nextId (fst (runHooks t i hs docs v s)) = nextId s"
proof -
  from runHooks_extends[of t i hs docs v s] obtain evs
    where e: "fst (runHooks t i hs docs v s) = extends s evs" by auto
  show "colls (fst (runHooks t i hs docs v s)) = colls s"
    "failing (fst (runHooks t i hs docs v s)) = failing s"
    "nextId (fst (runHooks t i hs docs v s)) = nextId s"
    unfolding e by simp_all
qed

lemma rejection_cong: "failing s' = failing s \<Longrightarrow> rejection s' c = rejection s c"
  by (simp add: rejection_def)

lemma datastore_update_nomatch:
  assumes "rejection s c = None" and "filter (matches q) (colls s c) = []"
  shows "datastore_update c q u s = (extends s [DbUpdate c q u], Inr 0)"
proof -
  have "\<forall>d\<in>set (colls s c). \<not> matches q d" using assms(2) by (simp add: filter_empty_conv)
  then have "map (\<lambda>d. if matches q d then applyUpdate u d else d) (colls s c) = colls s c"
    by (simp add: map_idI)
  then have "(colls s)(c := map (\<lambda>d. if matches q d then applyUpdate u d else d) (colls s c)) = colls s"
    by simp
  then show ?thesis using assms
    by (simp add: datastore_update_def Let_def emit_extends extends_def)
qed

lemma saveUpdate_notFound:
  assumes "isRestIDQuery req" and "rejection s (name m) = None"
    and "filter (matches q) (colls s (name m)) = []"
  shows "saveUpdate m q setUpdate updatedDocs req b s
           = extends s [DbUpdate (name m) q setUpdate, Done (Inl (NotFoundError ''Not Found''))]"
  using assms
  by (simp add: saveUpdate_def datastore_update_nomatch[OF assms(2,3)] done_cb_extends)


lemma beforeUpdateHooks_extends:
  "\<exists>evs. fst (beforeUpdateHooks m docs u s) = extends s evs \<and> list_all isHook evs"
proof (cases "beforeUpdate (settings m)")
  case None
  then show ?thesis by (auto simp: beforeUpdateHooks_def intro: exI[of _ "[]"])
next
  case (Some hs)
  then show ?thesis using runHooks_extends[of "''beforeUpdate''" 0 hs docs "JObj u" s]
    by (simp add: beforeUpdateHooks_def)
qed

lemma startUpdate_hooks:
  "startUpdate m q u setUpdate updatedDocs req b s =
     (case find_op m q [(''compose'', JBool False)] s of
        (s1, Inl e) \<Rightarrow> done_cb (Inl e) s1
      | (s1, Inr result) \<Rightarrow>
          (case beforeUpdateHooks m updatedDocs u s1 of
             (s2, Inl err) \<Rightarrow> done_cb (Inl (HookError err)) s2
           | (s2, Inr result) \<Rightarrow> saveUpdate m q setUpdate updatedDocs req b s2))"
  by (simp add: startUpdate_def beforeUpdateHooks_def split: prod.splits sum.splits option.splits)

lemma delete_notFound:
  assumes "validateQuery m query0" "db s" "isRestIDQuery req"
    and f1: "find_op m [] [(''compose'', JBool False)] s = (s1, Inr r1)"
    and f2: "find_op m (formatQuery (internalFieldsPrefix m) query0)
               [(''compose'', JBool False)] s1 = (s2, Inr ([], n))"
  shows "delete_op m query0 req s = extends s2 [Done (Inl (NotFoundError ''Document not found''))]"
    and "colls s2 = colls s"
    and "\<exists>evs. trace s2 = trace s @ evs \<and> list_all isLookup evs"
proof -
  obtain allDocs totalCount where r1: "r1 = (allDocs, totalCount)" by (cases r1)
  show "delete_op m query0 req s = extends s2 [Done (Inl (NotFoundError ''Document not found''))]"
    using assms(1-3) by (simp add: delete_op_def Let_def f1 r1 f2 done_cb_extends)
  have "colls s1 = colls s" using find_op_store(1)[of m "[]" "[(''compose'', JBool False)]" s] f1
    by simp
  moreover have "colls s2 = colls s1"
    using find_op_store(1)[of m "formatQuery (internalFieldsPrefix m) query0"
            "[(''compose'', JBool False)]" s1] f2 by simp
  ultimately show "colls s2 = colls s" by simp
  from find_op_trace[of m "[]" "[(''compose'', JBool False)]" s] f1 obtain evs1
    where t1: "trace s1 = trace s @ evs1" and l1: "list_all isLookup evs1" by auto
  from find_op_trace[of m "formatQuery (internalFieldsPrefix m) query0"
          "[(''compose'', JBool False)]" s1] f2 obtain evs2
    where t2: "trace s2 = trace s1 @ evs2" and l2: "list_all isLookup evs2" by auto
  show "\<exists>evs. trace s2 = trace s @ evs \<and> list_all isLookup evs"
    using t1 t2 l1 l2 by (intro exI[of _ "evs1 @ evs2"]) simp
qed

lemma update_notFound:
  assumes "db s" "validateQuery m query0" "validateSchema m update0 True" "isRestIDQuery req"
    and q: "q = formatQuery (internalFieldsPrefix m) query0"
    and u: "upd = assign (convertDateTimeForSave m update0) internals"
    and f1: "find_op m q [] s = (s1, Inr (pre, tc))"
    and cfc: "createFromComposed m upd = None"
    and f2: "find_op m q [(''compose'', JBool False)] s1 = (s2, Inr r2)"
    and h: "beforeUpdateHooks m pre upd s2 = (s3, Inr r3)"
    and rej: "rejection s (name m) = None"
    and nomatch: "filter (matches q) (colls s (name m)) = []"
  shows "update_op m query0 update0 internals req b s
           = extends s3 [DbUpdate (name m) q
                           [(''$set'', JObj upd), (''$inc'', JObj [(''_version'', JNum 1)])],
                         Done (Inl (NotFoundError ''Not Found''))]"
    and "colls s3 = colls s"
    and "\<exists>evs. trace s3 = trace s @ evs \<and> list_all (\<lambda>e. isLookup e \<or> isHook e) evs"
proof -
  have c1: "colls s1 = colls s" "failing s1 = failing s"
    using find_op_store(1,2)[of m q "[]" s] f1 by simp_all
  have c2: "colls s2 = colls s1" "failing s2 = failing s1"
    using find_op_store(1,2)[of m q "[(''compose'', JBool False)]" s1] f2 by simp_all
  from beforeUpdateHooks_extends[of m pre upd s2] h obtain evs3
    where s3: "s3 = extends s2 evs3" and l3: "list_all isHook evs3" by auto
  have c3: "colls s3 = colls s" "failing s3 = failing s" using s3 c1 c2 by simp_all
  show "colls s3 = colls s" by (rule c3(1))
  have rej3: "rejection s3 (name m) = None" using rej rejection_cong[OF c3(2)] by simp
  have nm3: "filter (matches q) (colls s3 (name m)) = []" using nomatch c3(1) by simp
  have "update_op m query0 update0 internals req b s
          = saveUpdate m q [(''$set'', JObj upd), (''$inc'', JObj [(''_version'', JNum 1)])]
              pre req b s3"
    using assms(1-3) by (simp add: update_op_def Let_def q[symmetric] u[symmetric] f1 cfc
                           startUpdate_hooks f2 h)
  then show "update_op m query0 update0 internals req b s
           = extends s3 [DbUpdate (name m) q
                           [(''$set'', JObj upd), (''$inc'', JObj [(''_version'', JNum 1)])],
                         Done (Inl (NotFoundError ''Not Found''))]"
    using saveUpdate_notFound[OF assms(4) rej3 nm3] by simp
  from find_op_trace[of m q "[]" s] f1 obtain evs1
    where t1: "trace s1 = trace s @ evs1" and l1: "list_all isLookup evs1" by auto
  from find_op_trace[of m q "[(''compose'', JBool False)]" s1] f2 obtain evs2
    where t2: "trace s2 = trace s1 @ evs2" and l2: "list_all isLookup evs2" by auto
  show "\<exists>evs. trace s3 = trace s @ evs \<and> list_all (\<lambda>e. isLookup e \<or> isHook e) evs"
    using t1 t2 s3 l1 l2 l3 by (intro exI[of _ "evs1 @ evs2 @ evs3"]) (auto simp: list_all_iff)
qed

section \<open>Reference paths in a query\<close>

lemma resolveReference_two_parts:
  assumes parts: "splitOn CHR ''.'' key = [collectionKey, queryKey]"
    and look: "referenceFind m (collection (getSchemaOrParent m collectionKey))
                 (collectionQueryOf key v query) s = (s1, Inr results)"
    and ids: "those (map idString results) = Some ids"
  shows "resolveReference m (key, v) query s
           = (s1, Inr (setField collectionKey
                (if results = []
                 then (if multiple (getSchemaOrParent m collectionKey)
                       then JObj [(''$in'', JArr [])] else JStr [])
                 else if multiple (getSchemaOrParent m collectionKey)
                      then JObj [(''$containsAny'', JArr (map JStr ids))]
                      else JStr (hd ids)) query))"
proof -
  have c: "referenceCollectionOf m key = collection (getSchemaOrParent m collectionKey)"
    by (simp add: referenceCollectionOf_def parts Let_def)
  have r: "rewriteQuery m key v query results
             = Inr (setField collectionKey
                (if results = []
                 then (if multiple (getSchemaOrParent m collectionKey)
                       then JObj [(''$in'', JArr [])] else JStr [])
                 else if multiple (getSchemaOrParent m collectionKey)
                      then JObj [(''$containsAny'', JArr (map JStr ids))]
                      else JStr (hd ids)) query)"
    by (simp add: rewriteQuery_def parts Let_def ids idCondition_def)
  show ?thesis by (simp add: resolveReference_def c look r)
qed

lemma collectionQueryOf_two_parts:
  "splitOn CHR ''.'' key = [collectionKey, queryKey] \<Longrightarrow>
   collectionQueryOf key v query =
     (case getField query collectionKey of
        Some c \<Rightarrow> if truthy (Some c) then setField ''_id'' c [(queryKey, v)] else [(queryKey, v)]
      | None \<Rightarrow> [(queryKey, v)])"
  by (simp add: collectionQueryOf_def Let_def split: option.splits)

lemma find_op_nested:
  assumes "validateQuery m (makeCaseInsensitive m query0)" and "db s"
    and "containsNestedReferenceFields m (makeCaseInsensitive m query0)"
    and "processReferenceFieldQuery m (makeCaseInsensitive m query0) = (q0, referenceFieldQuery)"
    and "resolveReferences m referenceFieldQuery q0 (withCompose options s) = (s2, Inr q)"
  shows "find_op m query0 options s = runFind m q s2"
proof -
  have s1: "(case getField options ''compose'' of Some v \<Rightarrow> s\<lparr>compose := Some v\<rparr> | None \<Rightarrow> s)
              = withCompose options s"
    by (simp add: withCompose_def)
  show ?thesis unfolding find_op_def Let_def s1 using assms by simp
qed

section \<open>The effect of an update on the store\<close>



























section \<open>The compose override of find\<close>

lemma find_op_compose:
  "compose (fst (find_op m q options s)) =
     (case getField options ''compose'' of Some v \<Rightarrow> Some v | None \<Rightarrow> compose s)"
proof -
  from find_op_lookup[of m q options s] obtain evs
    where "fst (find_op m q options s) = extends (withCompose options s) evs" by auto
  then show ?thesis by (simp add: withCompose_def split: option.splits)
qed

lemma find_op_cong_compose:
  assumes "getField options ''compose'' = None" and "compose s = Some v"
  shows "find_op m q options s = find_op m q ((''compose'', v) # options) s"
proof -
  have "s\<lparr>compose := Some v\<rparr> = s" using assms(2) by simp
  then show ?thesis
    unfolding find_op_def Let_def using assms(1) by (simp add: getField_def)
qed

text \<open>
  Claim C10.  A \<^verbatim>\<open>find\<close> whose options have a \<^verbatim>\<open>compose\<close> key overwrites the
  \<^verbatim>\<open>compose\<close> property of the model instance with that value, whatever the outcome of the
  call, and the property keeps the value: a later \<^verbatim>\<open>find\<close> on the same instance without a
  \<^verbatim>\<open>compose\<close> option leaves it in place and behaves as a \<^verbatim>\<open>find\<close> that is given the
  earlier caller's value, not the \<^verbatim>\<open>compose\<close> setting of the collection.
\<close>

theorem find_compose_override_persists:
  assumes "getField options ''compose'' = Some v"
  shows "compose (fst (find_op m query options s)) = Some v
       \<and> (\<forall>query' options'. getField options' ''compose'' = None \<longrightarrow>
            compose (fst (find_op m query' options' (fst (find_op m query options s)))) = Some v
          \<and> find_op m query' options' (fst (find_op m query options s))
              = find_op m query' ((''compose'', v) # options') (fst (find_op m query options s)))"
proof -
  have c: "compose (fst (find_op m query options s)) = Some v"
    using assms by (simp add: find_op_compose)
  show ?thesis
  proof (intro conjI allI impI)
    show "compose (fst (find_op m query options s)) = Some v" by (rule c)
  next
    fix query' options'
    assume n: "getField options' ''compose'' = None"
    show "compose (fst (find_op m query' options' (fst (find_op m query options s)))) = Some v"
      using n c by (simp add: find_op_compose)
    show "find_op m query' options' (fst (find_op m query options s))
            = find_op m query' ((''compose'', v) # options') (fst (find_op m query options s))"
      using n c by (rule find_op_cong_compose)
  qed
qed

lemma find_default_not_composed: "snd (find_op booksComposing [] [] (initialState booksComposing library))
           = Inr ([book1984], 1)"
  by code_simp

lemma find_after_override_composed: "snd (find_op booksComposing [] []
                 (fst (find_op booksComposing [] [(''compose'', JBool True)]
                        (initialState booksComposing library))))
           = Inr ([book1984 @ [(''composed'', JBool True)]], 1)"
  by code_simp

theorem find_compose_override_persists_witness:
  "getField [(''compose'', JBool True)] ''compose'' = Some (JBool True)
   \<and> settings_compose (settings booksComposing) = None
   \<and> compose (fst (find_op booksComposing [] [(''compose'', JBool True)]
                      (initialState booksComposing library))) = Some (JBool True)
   \<and> snd (find_op booksComposing [] [] (initialState booksComposing library))
       = Inr ([book1984], 1)
   \<and> snd (find_op booksComposing [] []
             (fst (find_op booksComposing [] [(''compose'', JBool True)]
                    (initialState booksComposing library))))
       = Inr ([book1984 @ [(''composed'', JBool True)]], 1)
   \<and> find_op booksComposing [] []
         (fst (find_op booksComposing [] [(''compose'', JBool True)]
                (initialState booksComposing library)))
       = find_op booksComposing [] [(''compose'', JBool True)]
           (fst (find_op booksComposing [] [(''compose'', JBool True)]
                  (initialState booksComposing library)))"
proof -
  have g: "getField [(''compose'', JBool True)] ''compose'' = Some (JBool True)"
    by (simp add: getField_def)
  have n: "getField [] ''compose'' = None" by (simp add: getField_def)
  note t = find_compose_override_persists[OF g, of booksComposing "[]"
             "initialState booksComposing library"]
  have d: "settings_compose (settings booksComposing) = None"
    by (simp add: booksComposing_def books_def booksSettings_def)
  show ?thesis using t g n d find_default_not_composed find_after_override_composed by simp
qed

section \<open>Validation in create\<close>

lemma validateEach_fold: "validateEach m documents = fold (validateStep m) documents None"
  by (simp add: validateEach_def validateStep_def)

lemma fold_validate_False: "fold (validateStep m) documents (Some False) = Some False"
  by (induction documents) (simp_all add: validateStep_def)

lemma fold_validate_invalid:
  "\<exists>doc\<in>set documents. \<not> validateSchema m doc False \<Longrightarrow> acc \<noteq> Some False \<Longrightarrow>
   fold (validateStep m) documents acc = Some False"
proof (induction documents arbitrary: acc)
  case Nil
  then show ?case by simp
next
  case (Cons d ds)
  have acc: "acc = None \<or> acc = Some True" using Cons.prems(2) by (cases acc) auto
  show ?case
  proof (cases "validateSchema m d False")
    case True
    then have "validateStep m d acc = Some True" using acc by (auto simp: validateStep_def)
    moreover have "\<exists>doc\<in>set ds. \<not> validateSchema m doc False" using Cons.prems(1) True by auto
    ultimately show ?thesis using Cons.IH[of "Some True"] by simp
  next
    case False
    then have "validateStep m d acc = Some False" using acc by (auto simp: validateStep_def)
    then show ?thesis by (simp add: fold_validate_False)
  qed
qed

lemma fold_validate_valid:
  "\<forall>doc\<in>set documents. validateSchema m doc False \<Longrightarrow> documents \<noteq> [] \<or> acc = Some True \<Longrightarrow>
   acc \<noteq> Some False \<Longrightarrow> fold (validateStep m) documents acc = Some True"
proof (induction documents arbitrary: acc)
  case Nil
  then show ?case by simp
next
  case (Cons d ds)
  have acc: "acc = None \<or> acc = Some True" using Cons.prems(3) by (cases acc) auto
  have "validateStep m d acc = Some True" using acc Cons.prems(1) by (auto simp: validateStep_def)
  then show ?case using Cons.IH[of "Some True"] Cons.prems(1) by simp
qed

lemma validateEach_invalid:
  "\<exists>doc\<in>set documents. \<not> validateSchema m doc False \<Longrightarrow> validateEach m documents = Some False"
  unfolding validateEach_fold by (rule fold_validate_invalid) simp_all

lemma validateEach_valid:
  "\<forall>doc\<in>set documents. validateSchema m doc False \<Longrightarrow> documents \<noteq> [] \<Longrightarrow>
   validateEach m documents = Some True"
  unfolding validateEach_fold by (rule fold_validate_valid) simp_all

text \<open>
  Claim C3.  When the connection has a database and a document of the batch handed to
  \<^verbatim>\<open>create\<close> fails the schema validation, the callback receives the validation error
  (status 400) and that is all the operation does: no call is made to the datastore, for
  no document of the batch, and the collections are as before.
\<close>

theorem create_rejects_invalid_batch:
  assumes "db s" and "\<exists>doc\<in>set documents. \<not> validateSchema m doc False"
  shows "create_op m documents internals lastChain s
           = extends s [Done (Inl (ValidationError ''Validation Failed''))]
       \<and> statusCode (ValidationError ''Validation Failed'') = Some 400
       \<and> colls (create_op m documents internals lastChain s) = colls s
       \<and> list_all (\<lambda>e. \<not> mutating e) (drop (length (trace s))
            (trace (create_op m documents internals lastChain s)))"
proof -
  have "create_op m documents internals lastChain s
           = extends s [Done (Inl (ValidationError ''Validation Failed''))]"
    using assms(1) validateEach_invalid[OF assms(2)]
    by (simp add: create_op_def done_cb_extends createValidationError_def)
  then show ?thesis by simp
qed

lemma create_invalid_batch_example:
  "trace (create_op books [[(''name'', JStr ''Emma'')], [(''title'', JStr ''no name'')]] [] 0
            (initialState books library))
     = [Done (Inl (ValidationError ''Validation Failed''))]"
  by code_simp

theorem create_rejects_invalid_batch_witness:
  "db (initialState books library)
   \<and> list_ex (\<lambda>doc. \<not> validateSchema books doc False)
        [[(''name'', JStr ''Emma'')], [(''title'', JStr ''no name'')]]
   \<and> validateSchema books [(''name'', JStr ''Emma'')] False
   \<and> create_op books [[(''name'', JStr ''Emma'')], [(''title'', JStr ''no name'')]] [] 0
        (initialState books library)
       = extends (initialState books library) [Done (Inl (ValidationError ''Validation Failed''))]
   \<and> colls (create_op books [[(''name'', JStr ''Emma'')], [(''title'', JStr ''no name'')]] [] 0
               (initialState books library)) ''books'' = [book1984]"
proof -
  have d: "db (initialState books library)" by (simp add: initialState_def)
  have v: "\<exists>doc\<in>set [[(''name'', JStr ''Emma'')], [(''title'', JStr ''no name'')]].
             \<not> validateSchema books doc False"
    by (simp add: books_def getField_def)
  have v1: "validateSchema books [(''name'', JStr ''Emma'')] False"
    by (simp add: books_def getField_def)
  have l: "colls (initialState books library) ''books'' = [book1984]"
    by (simp add: initialState_def library_def)
  note t = create_rejects_invalid_batch[OF d v, of "[]" 0]
  show ?thesis using t d v v1 l by (simp add: list_ex_iff)
qed

section \<open>The initial version and history\<close>

text \<open>
  Claim C2.  When \<^verbatim>\<open>create\<close> reports success, the documents it handed to the datastore
  and the documents it hands back each have \<^verbatim>\<open>_version\<close> 1; when revisions are stored
  (\<^verbatim>\<open>settings.storeRevisions\<close> is not \<^verbatim>\<open>false\<close>) each has \<^verbatim>\<open>_history\<close> \<^verbatim>\<open>[]\<close>, and
  otherwise \<^verbatim>\<open>_history\<close> is what the document and the internals had under that key:
  \<^verbatim>\<open>create\<close> adds none.  The composer is taken to leave the two fields alone.  What is
  handed back is the output formatting of these documents, which keeps the two names when
  the internal-field prefix is the default one.
\<close>

theorem create_initialises_version_and_history:
  assumes ok: "Done (Inr (Created returned))
                 \<in> set (trace (create_op m documents internals lastChain s))"
    and fresh: "trace s = []"
    and comp: "\<forall>ds. length (composer_compose m ds) = length ds
                 \<and> (\<forall>i<length ds. \<forall>k\<in>{''_version'', ''_history''}.
                        getField (composer_compose m ds ! i) k = getField (ds ! i) k)"
  shows "\<exists>inserted composed.
           DbInsert (name m) inserted \<in> set (trace (create_op m documents internals lastChain s))
         \<and> length inserted = length documents
         \<and> length composed = length documents
         \<and> returned = map (formatDocument ''_'' (internalFieldsPrefix m)) composed
         \<and> (\<forall>i<length documents.
               getField (inserted ! i) ''_version'' = Some (JNum 1)
             \<and> getField (composed ! i) ''_version'' = Some (JNum 1)
             \<and> getField (inserted ! i) ''_history''
                 = (if storeRevisions (settings m) \<noteq> Some (JBool False) then Some (JArr [])
                    else getField (assign (documents ! i) internals) ''_history'')
             \<and> getField (composed ! i) ''_history''
                 = (if storeRevisions (settings m) \<noteq> Some (JBool False) then Some (JArr [])
                    else getField (assign (documents ! i) internals) ''_history''))
         \<and> (internalFieldsPrefix m = ''_'' \<longrightarrow>
              (\<forall>d\<in>set returned.
                 getField d ''_version'' = Some (JNum 1)
               \<and> (storeRevisions (settings m) \<noteq> Some (JBool False)
                    \<longrightarrow> getField d ''_history'' = Some (JArr []))))"
proof -
  let ?D = "initialised m documents internals"
  let ?R = "fst (assignIds (nextId s) ?D)"
  let ?C = "composer_compose m ?R"
  from create_op_events[of m documents internals lastChain s] fresh obtain evs
    where t: "trace (create_op m documents internals lastChain s) = evs"
      and ce: "createEvents m ?D (nextId s) evs" by auto
  from ok t have mem: "Done (Inr (Created returned)) \<in> set evs" by simp
  from ce mem have "Done (Inr (Created returned)) = Done (Inr (Created (created m (nextId s) ?D)))"
    by (auto simp: createEvents_def list_all_iff)
  then have ret: "returned = map (formatDocument ''_'' (internalFieldsPrefix m)) ?C"
    by (simp add: created_def)
  from mem have "list_ex isSuccess evs" by (auto simp: list_ex_iff intro!: bexI[of _ "Done (Inr (Created returned))"])
  with ce have ins: "DbInsert (name m) ?D \<in> set evs" by (simp add: createEvents_def)
  have lenD: "length ?D = length documents" by (rule initialised_length)
  have lenR: "length ?R = length documents" by (simp add: assignIds_length lenD)
  have lenC: "length ?C = length documents" using comp lenR by simp
  have fieldsC: "getField (?C ! i) k = getField (?D ! i) k"
    if "i < length documents" "k \<in> {''_version'', ''_history''}" for i k
  proof -
    have "i < length ?R" using that lenR by simp
    with comp that(2) have "getField (?C ! i) k = getField (?R ! i) k" by blast
    also have "\<dots> = getField (?D ! i) k"
      by (rule assignIds_fields) (use that lenD in auto)
    finally show ?thesis .
  qed
  have h: "history m = (storeRevisions (settings m) \<noteq> Some (JBool False))"
    by (simp add: history_def)
  have per: "\<forall>i<length documents.
               getField (?D ! i) ''_version'' = Some (JNum 1)
             \<and> getField (?C ! i) ''_version'' = Some (JNum 1)
             \<and> getField (?D ! i) ''_history''
                 = (if storeRevisions (settings m) \<noteq> Some (JBool False) then Some (JArr [])
                    else getField (assign (documents ! i) internals) ''_history'')
             \<and> getField (?C ! i) ''_history''
                 = (if storeRevisions (settings m) \<noteq> Some (JBool False) then Some (JArr [])
                    else getField (assign (documents ! i) internals) ''_history'')"
    using fieldsC initialised_version[of _ documents m internals]
      initialised_history[of _ documents m internals] h by simp
  have out: "getField d ''_version'' = Some (JNum 1)
               \<and> (storeRevisions (settings m) \<noteq> Some (JBool False)
                    \<longrightarrow> getField d ''_history'' = Some (JArr []))"
    if p: "internalFieldsPrefix m = ''_''" and d: "d \<in> set returned" for d
  proof -
    from d ret p obtain i where i: "i < length documents" and di: "d = formatDocument ''_'' ''_'' (?C ! i)"
      using lenC by (auto simp: in_set_conv_nth)
    from per i have v: "getField (?C ! i) ''_version'' = Some (JNum 1)" by simp
    have "getField d ''_version'' = Some (JNum 1)"
      unfolding di by (rule getField_formatDocument_same[OF v]) simp_all
    moreover have "getField d ''_history'' = Some (JArr [])"
      if "storeRevisions (settings m) \<noteq> Some (JBool False)"
    proof -
      from per i that have hh: "getField (?C ! i) ''_history'' = Some (JArr [])" by simp
      show ?thesis unfolding di by (rule getField_formatDocument_same[OF hh]) simp_all
    qed
    ultimately show ?thesis by simp
  qed
  show ?thesis
    apply (rule exI[of _ ?D])
    apply (rule exI[of _ ?C])
    using ins t lenD lenC ret per out by simp
qed


lemma create_example:
  "trace (create_op books [[(''name'', JStr ''Emma'')]] [] 0 (initialState books library))
     = [DbInsert ''books''
          [[(''name'', JStr ''Emma''), (''_history'', JArr []), (''_version'', JNum 1)]],
        SearchIndex
          [[(''name'', JStr ''Emma''), (''_history'', JArr []), (''_version'', JNum 1),
            (''_id'', JStr ''id0'')]],
        Done (Inr (Created
          [[(''_history'', JArr []), (''_id'', JStr ''id0''), (''_version'', JNum 1),
            (''name'', JStr ''Emma'')]]))]"
  by code_simp

lemma create_without_revisions_example:
  "trace (create_op booksWithoutRevisions [[(''name'', JStr ''Emma'')]] [] 0
            (initialState booksWithoutRevisions library))
     = [DbInsert ''books'' [[(''name'', JStr ''Emma''), (''_version'', JNum 1)]],
        SearchIndex [[(''name'', JStr ''Emma''), (''_version'', JNum 1), (''_id'', JStr ''id0'')]],
        Done (Inr (Created
          [[(''_id'', JStr ''id0''), (''_version'', JNum 1), (''name'', JStr ''Emma'')]]))]"
  by code_simp

theorem create_initialises_version_and_history_witness:
  "Done (Inr (Created [[(''_history'', JArr []), (''_id'', JStr ''id0''), (''_version'', JNum 1),
                        (''name'', JStr ''Emma'')]]))
     \<in> set (trace (create_op books [[(''name'', JStr ''Emma'')]] [] 0 (initialState books library)))
   \<and> trace (initialState books library) = []
   \<and> storeRevisions (settings books) \<noteq> Some (JBool False)
   \<and> internalFieldsPrefix books = ''_''
   \<and> list_all (\<lambda>d. getField d ''_version'' = Some (JNum 1)
                    \<and> getField d ''_history'' = Some (JArr []))
        [[(''_history'', JArr []), (''_id'', JStr ''id0''), (''_version'', JNum 1),
          (''name'', JStr ''Emma'')]]"
proof -
  let ?returned = "[[(''_history'', JArr []), (''_id'', JStr ''id0''), (''_version'', JNum 1),
                     (''name'', JStr ''Emma'')]]"
  have ok: "Done (Inr (Created ?returned))
     \<in> set (trace (create_op books [[(''name'', JStr ''Emma'')]] [] 0 (initialState books library)))"
    unfolding create_example by simp
  have fresh: "trace (initialState books library) = []" by (simp add: initialState_def)
  have comp: "\<forall>ds. length (composer_compose books ds) = length ds
                 \<and> (\<forall>i<length ds. \<forall>k\<in>{''_version'', ''_history''}.
                        getField (composer_compose books ds ! i) k = getField (ds ! i) k)"
    by (simp add: books_def)
  have r: "storeRevisions (settings books) \<noteq> Some (JBool False)"
    by (simp add: books_def booksSettings_def)
  have p: "internalFieldsPrefix books = ''_''" by (simp add: books_def)
  from create_initialises_version_and_history[OF ok fresh comp] r p
  have "\<forall>d\<in>set ?returned. getField d ''_version'' = Some (JNum 1)
                            \<and> getField d ''_history'' = Some (JArr [])"
    by blast
  then have "list_all (\<lambda>d. getField d ''_version'' = Some (JNum 1)
                    \<and> getField d ''_history'' = Some (JArr [])) ?returned"
    unfolding list_all_iff .
  then show ?thesis using ok fresh r p by blast
qed

section \<open>Not found\<close>

text \<open>
  Claim C4, as the code has it.  An ID-addressed \<^verbatim>\<open>delete\<close> whose find of the matching
  documents returns none hands the not-found error (status 404) to its callback after the
  two finds: no writing call goes to the datastore and the history is not called, so no
  revision is written.  An ID-addressed \<^verbatim>\<open>update\<close> that matches no document reads the
  not-found condition from the \<^verbatim>\<open>matchedCount\<close> of the update on the datastore: when the
  run gets that far, the update call is issued first (it changes no document), the
  not-found error (status 404) follows, and the history is not called.
\<close>

theorem not_found_detection:
  "(validateQuery m query0 \<and> db s \<and> isRestIDQuery req
      \<and> find_op m [] [(''compose'', JBool False)] s = (s1, Inr r1)
      \<and> find_op m (formatQuery (internalFieldsPrefix m) query0)
            [(''compose'', JBool False)] s1 = (s2, Inr ([], n))
    \<longrightarrow> delete_op m query0 req s
          = extends s2 [Done (Inl (NotFoundError ''Document not found''))]
      \<and> statusCode (NotFoundError ''Document not found'') = Some 404
      \<and> colls s2 = colls s
      \<and> (\<exists>evs. trace s2 = trace s @ evs \<and> list_all isLookup evs))
 \<and> (db s \<and> validateQuery m query0 \<and> validateSchema m update0 True \<and> isRestIDQuery req
      \<and> q = formatQuery (internalFieldsPrefix m) query0
      \<and> upd = assign (convertDateTimeForSave m update0) internals
      \<and> find_op m q [] s = (s1, Inr (pre, tc))
      \<and> createFromComposed m upd = None
      \<and> find_op m q [(''compose'', JBool False)] s1 = (s2, Inr r2)
      \<and> beforeUpdateHooks m pre upd s2 = (s3, Inr r3)
      \<and> rejection s (name m) = None
      \<and> filter (matches q) (colls s (name m)) = []
    \<longrightarrow> update_op m query0 update0 internals req bypassOutputFormatting s
          = extends s3 [DbUpdate (name m) q
                          [(''$set'', JObj upd), (''$inc'', JObj [(''_version'', JNum 1)])],
                        Done (Inl (NotFoundError ''Not Found''))]
      \<and> statusCode (NotFoundError ''Not Found'') = Some 404
      \<and> colls s3 = colls s
      \<and> (\<exists>evs. trace s3 = trace s @ evs \<and> list_all (\<lambda>e. isLookup e \<or> isHook e) evs))"
proof (intro conjI impI)
  assume a: "validateQuery m query0 \<and> db s \<and> isRestIDQuery req
      \<and> find_op m [] [(''compose'', JBool False)] s = (s1, Inr r1)
      \<and> find_op m (formatQuery (internalFieldsPrefix m) query0)
            [(''compose'', JBool False)] s1 = (s2, Inr ([], n))"
  then have a1: "validateQuery m query0" and a2: "db s" and a3: "isRestIDQuery req"
    and a4: "find_op m [] [(''compose'', JBool False)] s = (s1, Inr r1)"
    and a5: "find_op m (formatQuery (internalFieldsPrefix m) query0)
            [(''compose'', JBool False)] s1 = (s2, Inr ([], n))" by blast+
  show "delete_op m query0 req s = extends s2 [Done (Inl (NotFoundError ''Document not found''))]"
    by (rule delete_notFound(1)[OF a1 a2 a3 a4 a5])
  show "colls s2 = colls s" by (rule delete_notFound(2)[OF a1 a2 a3 a4 a5])
  show "\<exists>evs. trace s2 = trace s @ evs \<and> list_all isLookup evs"
    by (rule delete_notFound(3)[OF a1 a2 a3 a4 a5])
  show "statusCode (NotFoundError ''Document not found'') = Some 404" by simp
next
  assume b: "db s \<and> validateQuery m query0 \<and> validateSchema m update0 True \<and> isRestIDQuery req
      \<and> q = formatQuery (internalFieldsPrefix m) query0
      \<and> upd = assign (convertDateTimeForSave m update0) internals
      \<and> find_op m q [] s = (s1, Inr (pre, tc))
      \<and> createFromComposed m upd = None
      \<and> find_op m q [(''compose'', JBool False)] s1 = (s2, Inr r2)
      \<and> beforeUpdateHooks m pre upd s2 = (s3, Inr r3)
      \<and> rejection s (name m) = None
      \<and> filter (matches q) (colls s (name m)) = []"
  then have b1: "db s" and b2: "validateQuery m query0" and b3: "validateSchema m update0 True"
    and b4: "isRestIDQuery req" and b5: "q = formatQuery (internalFieldsPrefix m) query0"
    and b6: "upd = assign (convertDateTimeForSave m update0) internals"
    and b7: "find_op m q [] s = (s1, Inr (pre, tc))"
    and b8: "createFromComposed m upd = None"
    and b9: "find_op m q [(''compose'', JBool False)] s1 = (s2, Inr r2)"
    and b10: "beforeUpdateHooks m pre upd s2 = (s3, Inr r3)"
    and b11: "rejection s (name m) = None"
    and b12: "filter (matches q) (colls s (name m)) = []" by blast+
  show "update_op m query0 update0 internals req bypassOutputFormatting s
          = extends s3 [DbUpdate (name m) q
                          [(''$set'', JObj upd), (''$inc'', JObj [(''_version'', JNum 1)])],
                        Done (Inl (NotFoundError ''Not Found''))]"
    by (rule update_notFound(1)[OF b1 b2 b3 b4 b5 b6 b7 b8 b9 b10 b11 b12])
  show "colls s3 = colls s"
    by (rule update_notFound(2)[OF b1 b2 b3 b4 b5 b6 b7 b8 b9 b10 b11 b12])
  show "\<exists>evs. trace s3 = trace s @ evs \<and> list_all (\<lambda>e. isLookup e \<or> isHook e) evs"
    by (rule update_notFound(3)[OF b1 b2 b3 b4 b5 b6 b7 b8 b9 b10 b11 b12])
  show "statusCode (NotFoundError ''Not Found'') = Some 404" by simp
qed

text \<open>
  The claim as the spec words it (the error is detected before any mutating call is
  issued) fails for \<^verbatim>\<open>update\<close>: the update call to the datastore comes before the error.
\<close>

theorem not_found_detection_counterexample:
  "trace (update_op books [(''_id'', JStr ''zz'')] [(''name'', JStr ''Animal Farm'')] []
            (Some [(''id'', JStr ''zz'')]) False (initialState books library))
     = [DbFind ''books'' [(''_id'', JStr ''zz'')],
        DbFind ''books'' [(''_id'', JStr ''zz'')],
        DbUpdate ''books'' [(''_id'', JStr ''zz'')]
          [(''$set'', JObj [(''name'', JStr ''Animal Farm'')]),
           (''$inc'', JObj [(''_version'', JNum 1)])],
        Done (Inl (NotFoundError ''Not Found''))]
   \<and> list_ex mutating
        (takeWhile (\<lambda>e. \<not> isDone e)
           (trace (update_op books [(''_id'', JStr ''zz'')] [(''name'', JStr ''Animal Farm'')] []
                     (Some [(''id'', JStr ''zz'')]) False (initialState books library))))"
  by code_simp



lemma find_all_books_example:
  "snd (find_op books [] [(''compose'', JBool False)] (initialState books library))
     = Inr ([book1984], 1)"
  by code_simp

lemma find_missing_book_example:
  "snd (find_op books [(''_id'', JStr ''zz'')] [(''compose'', JBool False)]
          (fst (find_op books [] [(''compose'', JBool False)] (initialState books library))))
     = Inr ([], 0)"
  by code_simp

lemma find_missing_book_first:
  "snd (find_op books [(''_id'', JStr ''zz'')] [] (initialState books library)) = Inr ([], 0)"
  by code_simp

lemma find_missing_book_second:
  "snd (find_op books [(''_id'', JStr ''zz'')] [(''compose'', JBool False)]
          (fst (find_op books [(''_id'', JStr ''zz'')] [] (initialState books library))))
     = Inr ([], 0)"
  by code_simp

lemma delete_missing_trace:
  "trace (delete_op books [(''_id'', JStr ''zz'')] (Some [(''id'', JStr ''zz'')])
            (initialState books library))
     = [DbFind ''books'' [], DbFind ''books'' [(''_id'', JStr ''zz'')],
        Done (Inl (NotFoundError ''Document not found''))]"
  by code_simp

theorem not_found_detection_witness:
  "isRestIDQuery (Some [(''id'', JStr ''zz'')])
   \<and> filter (matches [(''_id'', JStr ''zz'')]) (colls (initialState books library) ''books'') = []
   \<and> delete_op books [(''_id'', JStr ''zz'')] (Some [(''id'', JStr ''zz'')])
        (initialState books library)
       = extends
           (fst (find_op books [(''_id'', JStr ''zz'')] [(''compose'', JBool False)]
                  (fst (find_op books [] [(''compose'', JBool False)]
                         (initialState books library)))))
           [Done (Inl (NotFoundError ''Document not found''))]
   \<and> trace (delete_op books [(''_id'', JStr ''zz'')] (Some [(''id'', JStr ''zz'')])
              (initialState books library))
       = [DbFind ''books'' [], DbFind ''books'' [(''_id'', JStr ''zz'')],
          Done (Inl (NotFoundError ''Document not found''))]
   \<and> update_op books [(''_id'', JStr ''zz'')] [(''name'', JStr ''Animal Farm'')] []
        (Some [(''id'', JStr ''zz'')]) False (initialState books library)
       = extends
           (fst (find_op books [(''_id'', JStr ''zz'')] [(''compose'', JBool False)]
                  (fst (find_op books [(''_id'', JStr ''zz'')] []
                         (initialState books library)))))
           [DbUpdate ''books'' [(''_id'', JStr ''zz'')]
              [(''$set'', JObj [(''name'', JStr ''Animal Farm'')]),
               (''$inc'', JObj [(''_version'', JNum 1)])],
            Done (Inl (NotFoundError ''Not Found''))]"
proof -
  let ?s = "initialState books library"
  let ?req = "Some [(''id'', JStr ''zz'')]"
  let ?q = "[(''_id'', JStr ''zz'')]"
  let ?u = "[(''name'', JStr ''Animal Farm'')]"
  let ?d1 = "fst (find_op books [] [(''compose'', JBool False)] ?s)"
  let ?d2 = "fst (find_op books ?q [(''compose'', JBool False)] ?d1)"
  let ?u1 = "fst (find_op books ?q [] ?s)"
  let ?u2 = "fst (find_op books ?q [(''compose'', JBool False)] ?u1)"
  have req: "isRestIDQuery ?req" by (simp add: isRestIDQuery_def getField_def)
  have vq: "validateQuery books ?q" and vs: "validateSchema books ?u True" and d: "db ?s"
    and pfx: "formatQuery (internalFieldsPrefix books) ?q = ?q"
    and upd: "assign (convertDateTimeForSave books ?u) [] = ?u"
    and cfc: "createFromComposed books ?u = None"
    and rej: "rejection ?s (name books) = None"
    and nm: "name books = ''books''"
    by (simp_all add: books_def initialState_def formatQuery_def startsWith_def setField_def
          assign_def rejection_def)
  have nomatch: "filter (matches ?q) (colls ?s ''books'') = []"
    by (simp add: initialState_def library_def matches_def getField_def book1984_def)
  have f1: "find_op books [] [(''compose'', JBool False)] ?s = (?d1, Inr ([book1984], 1))"
    by (rule pair_of_snd[OF find_all_books_example])
  have f2: "find_op books ?q [(''compose'', JBool False)] ?d1 = (?d2, Inr ([], 0))"
    by (rule pair_of_snd[OF find_missing_book_example])
  have g1: "find_op books ?q [] ?s = (?u1, Inr ([], 0))"
    by (rule pair_of_snd[OF find_missing_book_first])
  have g2: "find_op books ?q [(''compose'', JBool False)] ?u1 = (?u2, Inr ([], 0))"
    by (rule pair_of_snd[OF find_missing_book_second])
  have h: "beforeUpdateHooks books [] ?u ?u2 = (?u2, Inr (JObj ?u))"
    by (simp add: beforeUpdateHooks_def books_def booksSettings_def)
  have del: "delete_op books ?q ?req ?s
               = extends ?d2 [Done (Inl (NotFoundError ''Document not found''))]"
    using not_found_detection[of books ?q ?s ?req ?d1 "([book1984], 1)" ?d2 0]
      vq d req f1 f2 pfx by simp
  have up: "update_op books ?q ?u [] ?req False ?s
              = extends ?u2 [DbUpdate ''books'' ?q
                   [(''$set'', JObj ?u), (''$inc'', JObj [(''_version'', JNum 1)])],
                 Done (Inl (NotFoundError ''Not Found''))]"
    using not_found_detection[of books ?q ?s ?req ?u1 _ ?u2 _ ?u ?q ?u "[]" "[]" 0
            "([], 0)" ?u2 "JObj ?u" False]
      vq vs d req g1 g2 pfx upd cfc h rej nomatch nm by simp
  show ?thesis using req nomatch del up delete_missing_trace by simp
qed

section \<open>Hooks that return null\<close>








section \<open>A failing history write\<close>

lemma saveUpdate_history_failure:
  assumes "history m"
    and "datastore_update (name m) q setUpdate s = (s1, Inr matchedCount)"
    and "\<not> (isRestIDQuery req \<and> matchedCount = 0)"
    and "history_createEach m updatedDocs ''update''
           (emit (HistoryCreateEach updatedDocs ''update'') s1) = (s2, Some e)"
  shows "saveUpdate m q setUpdate updatedDocs req b s = extends s2 [LogError e]"
  using assms by (auto simp: saveUpdate_def emit_extends)

lemma deleteWithHistory_history_failure:
  assumes "history m" and "deletedDocs \<noteq> []"
    and "history_createEach m deletedDocs ''delete''
           (emit (HistoryCreateEach deletedDocs ''delete'') s) = (s1, Some e)"
  shows "deleteWithHistory m q deletedDocs totalCount s = extends s1 [LogError e, Done (Inl e)]"
  using assms by (simp add: deleteWithHistory_def emit_extends done_cb_extends)

text \<open>
  Claim C6.  The spec has a failure of the history write logged and handed to the caller as
  the error of the operation.  \<^verbatim>\<open>delete\<close> does so (\<open>deleteWithHistory_history_failure\<close>):
  its handler logs the error and calls \<^verbatim>\<open>done(err)\<close>.  The handler of \<^verbatim>\<open>update\<close> logs the
  error and calls nothing: with a revision collection that rejects the insert, the update
  is applied to the document, the error is logged, and the callback is never called.
\<close>

theorem update_history_failure_unreported:
  "trace (update_op books [(''_id'', JStr ''b1'')] [(''name'', JStr ''Animal Farm'')] [] None False
            ((initialState books library)\<lparr>failing := [(''booksHistory'', ''disk full'')]\<rparr>))
     = [DbFind ''books'' [(''_id'', JStr ''b1'')],
        DbFind ''books'' [(''_id'', JStr ''b1'')],
        DbUpdate ''books'' [(''_id'', JStr ''b1'')]
          [(''$set'', JObj [(''name'', JStr ''Animal Farm'')]),
           (''$inc'', JObj [(''_version'', JNum 1)])],
        HistoryCreateEach [book1984] ''update'',
        DbInsert ''booksHistory'' [revisionRecord book1984 ''update''],
        LogError (StorageError ''disk full'')]
   \<and> \<not> list_ex isDone
        (trace (update_op books [(''_id'', JStr ''b1'')] [(''name'', JStr ''Animal Farm'')] []
                  None False
                  ((initialState books library)\<lparr>failing := [(''booksHistory'', ''disk full'')]\<rparr>)))
   \<and> colls (update_op books [(''_id'', JStr ''b1'')] [(''name'', JStr ''Animal Farm'')] []
               None False
               ((initialState books library)\<lparr>failing := [(''booksHistory'', ''disk full'')]\<rparr>))
        ''books''
       = [[(''_id'', JStr ''b1''), (''name'', JStr ''Animal Farm''), (''authorId'', JStr ''a1''),
           (''_version'', JNum 4), (''_history'', JArr [])]]"
  by code_simp

lemma delete_history_failure_reported:
  "trace (delete_op books [(''_id'', JStr ''b1'')] None
            ((initialState books library)\<lparr>failing := [(''booksHistory'', ''disk full'')]\<rparr>))
     = [DbFind ''books'' [], DbFind ''books'' [(''_id'', JStr ''b1'')],
        HistoryCreateEach [book1984] ''delete'',
        DbInsert ''booksHistory'' [revisionRecord book1984 ''delete''],
        LogError (StorageError ''disk full''),
        Done (Inl (StorageError ''disk full''))]"
  by code_simp

section \<open>The rewriting of reference paths by find\<close>

text \<open>
  Claim C7.  Before the datastore is queried, \<^verbatim>\<open>find\<close> resolves every dot-notation key
  through a reference field.  For a key of two segments \<open>reference.field\<close> it runs a find on
  the referenced collection with the condition on \<open>field\<close> (and on \<open>_id\<close>, when the query
  already holds a condition on the reference field), takes the ids of the documents found
  and sets the reference field of the query to: \<open>{$containsAny: ids}\<close> for a multi-valued
  reference and the first id for a single-valued one, when documents were found;
  \<open>{$in: []}\<close> for a multi-valued reference and the empty string for a single-valued one,
  when none was found.  The datastore receives the rewritten query after all lookups.
\<close>

theorem find_rewrites_reference_paths:
  "(splitOn CHR ''.'' key = [collectionKey, queryKey]
      \<and> referenceFind m (collection (getSchemaOrParent m collectionKey))
            (collectionQueryOf key v query) s = (s1, Inr results)
      \<and> those (map idString results) = Some ids
    \<longrightarrow> collectionQueryOf key v query =
          (case getField query collectionKey of
             Some c \<Rightarrow> if truthy (Some c) then setField ''_id'' c [(queryKey, v)]
                       else [(queryKey, v)]
           | None \<Rightarrow> [(queryKey, v)])
      \<and> resolveReference m (key, v) query s
          = (s1, Inr (setField collectionKey
               (if results = []
                then (if multiple (getSchemaOrParent m collectionKey)
                      then JObj [(''$in'', JArr [])] else JStr [])
                else if multiple (getSchemaOrParent m collectionKey)
                     then JObj [(''$containsAny'', JArr (map JStr ids))]
                     else JStr (hd ids)) query))
      \<and> (\<exists>evs. trace s1 = trace s @ ReferenceFind (collection (getSchemaOrParent m collectionKey))
                                       (collectionQueryOf key v query) # evs
               \<and> list_all isLookup evs))
   \<and> (validateQuery m (makeCaseInsensitive m query0) \<and> db s
      \<and> containsNestedReferenceFields m (makeCaseInsensitive m query0)
      \<and> processReferenceFieldQuery m (makeCaseInsensitive m query0) = (q0, referenceFieldQuery)
      \<and> resolveReferences m referenceFieldQuery q0 (withCompose options s) = (s2, Inr q)
    \<longrightarrow> find_op m query0 options s = runFind m q s2
      \<and> trace (fst (find_op m query0 options s)) = trace s2 @ [DbFind (name m) q]
      \<and> (\<exists>evs. trace s2 = trace s @ evs \<and> list_all isLookup evs))"
proof (intro conjI impI)
  assume a: "splitOn CHR ''.'' key = [collectionKey, queryKey]
      \<and> referenceFind m (collection (getSchemaOrParent m collectionKey))
            (collectionQueryOf key v query) s = (s1, Inr results)
      \<and> those (map idString results) = Some ids"
  then have parts: "splitOn CHR ''.'' key = [collectionKey, queryKey]"
    and look: "referenceFind m (collection (getSchemaOrParent m collectionKey))
            (collectionQueryOf key v query) s = (s1, Inr results)"
    and ids: "those (map idString results) = Some ids" by blast+
  show "collectionQueryOf key v query =
          (case getField query collectionKey of
             Some c \<Rightarrow> if truthy (Some c) then setField ''_id'' c [(queryKey, v)]
                       else [(queryKey, v)]
           | None \<Rightarrow> [(queryKey, v)])"
    by (rule collectionQueryOf_two_parts[OF parts])
  show "resolveReference m (key, v) query s
          = (s1, Inr (setField collectionKey
               (if results = []
                then (if multiple (getSchemaOrParent m collectionKey)
                      then JObj [(''$in'', JArr [])] else JStr [])
                else if multiple (getSchemaOrParent m collectionKey)
                     then JObj [(''$containsAny'', JArr (map JStr ids))]
                     else JStr (hd ids)) query))"
    by (rule resolveReference_two_parts[OF parts look ids])
  from referenceFind_extends[of m "collection (getSchemaOrParent m collectionKey)"
         "collectionQueryOf key v query" s] look
  obtain evs where "s1 = extends s (ReferenceFind (collection (getSchemaOrParent m collectionKey))
                                       (collectionQueryOf key v query) # evs)"
    and "list_all isLookup evs" by auto
  then show "\<exists>evs. trace s1 = trace s @ ReferenceFind (collection (getSchemaOrParent m collectionKey))
                                       (collectionQueryOf key v query) # evs
               \<and> list_all isLookup evs" by auto
next
  assume b: "validateQuery m (makeCaseInsensitive m query0) \<and> db s
      \<and> containsNestedReferenceFields m (makeCaseInsensitive m query0)
      \<and> processReferenceFieldQuery m (makeCaseInsensitive m query0) = (q0, referenceFieldQuery)
      \<and> resolveReferences m referenceFieldQuery q0 (withCompose options s) = (s2, Inr q)"
  then have f: "find_op m query0 options s = runFind m q s2"
    using find_op_nested[of m query0 s q0 referenceFieldQuery options s2 q] by blast
  show "find_op m query0 options s = runFind m q s2" by (rule f)
  show "trace (fst (find_op m query0 options s)) = trace s2 @ [DbFind (name m) q]"
    unfolding f runFind_extends by simp
  from resolveReferences_lookup[of m referenceFieldQuery q0 "withCompose options s"] b
  obtain evs where "s2 = extends (withCompose options s) evs" and "list_all isLookup evs" by auto
  then show "\<exists>evs. trace s2 = trace s @ evs \<and> list_all isLookup evs" by auto
qed

text \<open>
  The spec has a \<open>$containsAny\<close> condition for every multi-valued reference.  With no
  author of that name, the condition sent to the datastore is \<open>{$in: []}\<close>.
\<close>

theorem find_rewrites_reference_paths_counterexample:
  "multiple (getSchemaOrParent booksMulti ''authorId'')
   \<and> trace (fst (find_op booksMulti [(''authorId.name'', JStr ''Tolstoy'')] []
                   (initialState booksMulti library)))
     = [ReferenceFind ''authors'' [(''name'', JStr ''Tolstoy'')],
        DbFind ''authors'' [(''name'', JStr ''Tolstoy'')],
        DbFind ''books'' [(''authorId'', JObj [(''$in'', JArr [])])]]"
  by code_simp

text \<open>A key of three segments goes through the link key and gives a \<open>$in\<close> condition.\<close>

lemma find_link_key_example:
  "trace (fst (find_op books [(''authorId.parent.name'', JStr ''Orwell'')] []
                 (initialState books library)))
     = [ReferenceFind ''authors'' [], DbFind ''authors'' [],
        DbFind ''books'' [(''authorId'', JObj [(''$in'', JArr [])])]]"
  by code_simp

lemma splitOn_example: "splitOn CHR ''.'' ''authorId.name'' = [''authorId'', ''name'']"
  by code_simp

lemma referenceFind_example:
  "snd (referenceFind booksMulti ''authors'' [(''name'', JStr ''Orwell'')]
          (initialState booksMulti library)) = Inr [orwell]"
  by code_simp

lemma resolveReferences_example:
  "snd (resolveReferences booksMulti [(''authorId.name'', JStr ''Orwell'')] []
          (initialState booksMulti library))
     = Inr [(''authorId'', JObj [(''$containsAny'', JArr [JStr ''a1''])])]"
  by code_simp

lemma find_reference_trace_example:
  "trace (fst (find_op booksMulti [(''authorId.name'', JStr ''Orwell'')] []
                   (initialState booksMulti library)))
     = [ReferenceFind ''authors'' [(''name'', JStr ''Orwell'')],
        DbFind ''authors'' [(''name'', JStr ''Orwell'')],
        DbFind ''books'' [(''authorId'', JObj [(''$containsAny'', JArr [JStr ''a1''])])]]"
  by code_simp

theorem find_rewrites_reference_paths_witness:
  "splitOn CHR ''.'' ''authorId.name'' = [''authorId'', ''name'']
   \<and> snd (referenceFind booksMulti ''authors'' [(''name'', JStr ''Orwell'')]
            (initialState booksMulti library)) = Inr [orwell]
   \<and> those (map idString [orwell]) = Some [''a1'']
   \<and> snd (resolveReference booksMulti (''authorId.name'', JStr ''Orwell'') []
            (initialState booksMulti library))
       = Inr [(''authorId'', JObj [(''$containsAny'', JArr [JStr ''a1''])])]
   \<and> db (initialState booksMulti library)
   \<and> find_op booksMulti [(''authorId.name'', JStr ''Orwell'')] [] (initialState booksMulti library)
       = runFind booksMulti [(''authorId'', JObj [(''$containsAny'', JArr [JStr ''a1''])])]
           (fst (resolveReferences booksMulti [(''authorId.name'', JStr ''Orwell'')] []
                   (initialState booksMulti library)))"
proof -
  let ?s = "initialState booksMulti library"
  let ?key = "''authorId.name''"
  let ?s1 = "fst (referenceFind booksMulti ''authors'' [(''name'', JStr ''Orwell'')] ?s)"
  let ?s2 = "fst (resolveReferences booksMulti [(?key, JStr ''Orwell'')] [] ?s)"
  let ?q = "[(''authorId'', JObj [(''$containsAny'', JArr [JStr ''a1''])])]"
  have m: "multiple (getSchemaOrParent booksMulti ''authorId'')"
    "collection (getSchemaOrParent booksMulti ''authorId'') = ''authors''"
    "validateQuery booksMulti q" "makeCaseInsensitive booksMulti q = q" for q
    by (simp_all add: booksMulti_def books_def)
  have cq: "collectionQueryOf ?key (JStr ''Orwell'') [] = [(''name'', JStr ''Orwell'')]"
    by (simp add: collectionQueryOf_def splitOn_example Let_def getField_def)
  have look: "referenceFind booksMulti ''authors'' [(''name'', JStr ''Orwell'')] ?s = (?s1, Inr [orwell])"
    by (rule pair_of_snd[OF referenceFind_example])
  have ids: "those (map idString [orwell]) = Some [''a1'']"
    by (simp add: orwell_def idString_def getField_def)
  have d: "db ?s" by (simp add: initialState_def)
  have n: "containsNestedReferenceFields booksMulti [(?key, JStr ''Orwell'')]"
    "processReferenceFieldQuery booksMulti [(?key, JStr ''Orwell'')] = ([], [(?key, JStr ''Orwell'')])"
    by (simp_all add: booksMulti_def books_def hasDot_def)
  have w: "withCompose [] ?s = ?s" by (simp add: withCompose_def getField_def)
  have rr: "resolveReferences booksMulti [(?key, JStr ''Orwell'')] [] ?s = (?s2, Inr ?q)"
    by (rule pair_of_snd[OF resolveReferences_example])
  have sf: "setField ''authorId'' (JObj [(''$containsAny'', JArr [JStr ''a1''])]) [] = ?q"
    by (simp add: setField_def)
  show ?thesis
    using find_rewrites_reference_paths[of ?key "''authorId''" "''name''" booksMulti "JStr ''Orwell''"
        "[]" ?s ?s1 "[orwell]" "[''a1'']" "[(?key, JStr ''Orwell'')]" "[]" "[(?key, JStr ''Orwell'')]"
        "[]" ?s2 ?q]
      splitOn_example m cq look ids d n w rr sf referenceFind_example
    by simp
qed

section \<open>An empty lookup in the reference field type\<close>

text \<open>
  Claim C8.  The spec has an empty intermediate lookup end the rewriting of the path with a
  condition that matches nothing and with no further call to the storage.  In
  \<^verbatim>\<open>beforeQuery\<close> of the reference field type the \<^verbatim>\<open>return\<close> meant for this sits in the
  callback of a \<^verbatim>\<open>forEach\<close>, so \<^verbatim>\<open>model.find\<close> runs all the same: for the path
  \<open>author.publisher.name\<close> and no publisher of that name, the lookup in \<open>publishers\<close> is
  empty and the lookup in \<open>authors\<close> is still made, with the condition
  \<open>{publisher: {$containsAny: []}}\<close>.
\<close>

theorem beforeQuery_no_short_circuit:
  "snd (modelFind ''publishers'' [(''name'', JStr ''Nobody'')] (initialState books bigLibrary)) = Inr []
   \<and> trace (fst (beforeQuery librarySchemas ''books'' ''author''
                   [(''author.publisher.name'', JStr ''Nobody'')] (initialState books bigLibrary)))
       = [ReferenceFind ''publishers'' [(''name'', JStr ''Nobody'')],
          DbFind ''publishers'' [(''name'', JStr ''Nobody'')],
          ReferenceFind ''authors'' [(''publisher'', JObj [(''$containsAny'', JArr [])])],
          DbFind ''authors'' [(''publisher'', JObj [(''$containsAny'', JArr [])])]]
   \<and> snd (beforeQuery librarySchemas ''books'' ''author''
            [(''author.publisher.name'', JStr ''Nobody'')] (initialState books bigLibrary))
       = Inr (JObj [(''author'', JObj [(''$containsAny'', JArr [])])])"
  by code_simp

section \<open>Versions and revisions of an update\<close>





lemma update_store_example:
  "colls (update_op books [(''_id'', JStr ''b1'')] [(''name'', JStr ''Animal Farm'')]
               [] None False (initialState books library)) ''books''
     = [[(''_id'', JStr ''b1''), (''name'', JStr ''Animal Farm''), (''authorId'', JStr ''a1''),
         (''_version'', JNum 4), (''_history'', JArr [JStr ''id0''])]]
   \<and> colls (update_op books [(''_id'', JStr ''b1'')] [(''name'', JStr ''Animal Farm'')]
               [] None False (initialState books library)) ''booksHistory''
     = [[(''_action'', JStr ''update''), (''_document'', JObj book1984), (''_id'', JStr ''id0'')]]"
  by code_simp


end
